theory Spec2Isabelle
  imports Complex_Main "HOL-Library.Multiset" "HOL-Library.Log_Nat"
begin

section \<open>JavaScript numbers\<close>

text \<open>
  The dashboards are JavaScript (React) components and all their arithmetic is on IEEE 754
  double precision numbers. A number is a finite value, given by the rational it denotes,
  \<open>NaN\<close>, \<open>+Infinity\<close> or \<open>-Infinity\<close>. The two zeros are one value here: the code never divides
  by a number that can be zero and prints both as \<open>0\<close>.
\<close>

datatype jsnum = Fin rat | NaN | PosInf | NegInf

text \<open>
  Rounding a real to the nearest double, a tie going to the even significand: significands
  have 53 bits, the least exponent of a unit in the last place is \<open>-1074\<close>, and a result
  of magnitude \<open>2^1024\<close> is an infinity.
\<close>

definition round_half_even :: "rat \<Rightarrow> int" where
  "round_half_even x =
     (if x - of_int \<lfloor>x\<rfloor> < 1 / 2 then \<lfloor>x\<rfloor>
      else if 1 / 2 < x - of_int \<lfloor>x\<rfloor> then \<lfloor>x\<rfloor> + 1
      else if even \<lfloor>x\<rfloor> then \<lfloor>x\<rfloor>
      else \<lfloor>x\<rfloor> + 1)"

text \<open>For \<open>x > 0\<close>, the integer \<open>k\<close> with \<open>2^k \<le> x < 2^(k+1)\<close>.\<close>

definition floor_log2 :: "rat \<Rightarrow> int" where
  "floor_log2 x = (if 1 \<le> x then bitlen \<lfloor>x\<rfloor> - 1 else - bitlen (\<lceil>1 / x\<rceil> - 1))"

definition ulp_exponent :: "rat \<Rightarrow> int" where
  "ulp_exponent x = max (floor_log2 \<bar>x\<bar> - 52) (- 1074)"

definition dbl_magnitude :: "rat \<Rightarrow> rat" where
  "dbl_magnitude x =
     of_int (round_half_even (\<bar>x\<bar> / 2 powi ulp_exponent x)) * 2 powi ulp_exponent x"

definition dbl :: "rat \<Rightarrow> jsnum" where
  "dbl x =
     (if x = 0 then Fin 0
      else if 2 ^ 1024 \<le> dbl_magnitude x then (if 0 < x then PosInf else NegInf)
      else Fin (if 0 < x then dbl_magnitude x else - dbl_magnitude x))"

text \<open>The operators \<open>+\<close>, \<open>-\<close>, \<open>*\<close>, \<open>/\<close> on numbers.\<close>

fun jneg :: "jsnum \<Rightarrow> jsnum" where
  "jneg (Fin a) = Fin (- a)"
| "jneg NaN = NaN"
| "jneg PosInf = NegInf"
| "jneg NegInf = PosInf"

fun jadd :: "jsnum \<Rightarrow> jsnum \<Rightarrow> jsnum" where
  "jadd (Fin a) (Fin b) = dbl (a + b)"
| "jadd NaN y = NaN"
| "jadd x NaN = NaN"
| "jadd PosInf NegInf = NaN"
| "jadd NegInf PosInf = NaN"
| "jadd PosInf y = PosInf"
| "jadd x PosInf = PosInf"
| "jadd NegInf y = NegInf"
| "jadd x NegInf = NegInf"

definition jsub :: "jsnum \<Rightarrow> jsnum \<Rightarrow> jsnum" where
  "jsub x y = jadd x (jneg y)"

text \<open>The sign of a number that is not \<open>NaN\<close>: negative, zero or positive.\<close>

fun jsgn :: "jsnum \<Rightarrow> int" where
  "jsgn (Fin a) = (if a < 0 then - 1 else if a = 0 then 0 else 1)"
| "jsgn NaN = 0"
| "jsgn PosInf = 1"
| "jsgn NegInf = - 1"

fun jmul :: "jsnum \<Rightarrow> jsnum \<Rightarrow> jsnum" where
  "jmul (Fin a) (Fin b) = dbl (a * b)"
| "jmul NaN y = NaN"
| "jmul x NaN = NaN"
| "jmul x y =
     (if jsgn x * jsgn y = 0 then NaN else if 0 < jsgn x * jsgn y then PosInf else NegInf)"

fun jdiv :: "jsnum \<Rightarrow> jsnum \<Rightarrow> jsnum" where
  "jdiv (Fin a) (Fin b) =
     (if b = 0 then (if a = 0 then NaN else if 0 < a then PosInf else NegInf)
      else dbl (a / b))"
| "jdiv NaN y = NaN"
| "jdiv x NaN = NaN"
| "jdiv (Fin a) y = Fin 0"
| "jdiv x (Fin b) = (if 0 \<le> jsgn x * (if b < 0 then - 1 else 1) then PosInf else NegInf)"
| "jdiv x y = NaN"

text \<open>\<open>Math.round\<close>: the nearest integer, a tie going up (towards \<open>+Infinity\<close>).\<close>

fun Math_round :: "jsnum \<Rightarrow> jsnum" where
  "Math_round (Fin x) = Fin (of_int \<lfloor>x + 1 / 2\<rfloor>)"
| "Math_round NaN = NaN"
| "Math_round PosInf = PosInf"
| "Math_round NegInf = NegInf"


text \<open>\<open>x > 0\<close>, \<open>Number.isFinite(x)\<close>, \<open>x\<close> as a condition, and \<open>Number(x) || 0\<close>.\<close>

fun is_positive :: "jsnum \<Rightarrow> bool" where
  "is_positive (Fin a) = (0 < a)"
| "is_positive NaN = False"
| "is_positive PosInf = True"
| "is_positive NegInf = False"

fun isFinite :: "jsnum \<Rightarrow> bool" where
  "isFinite (Fin r) = True"
| "isFinite NaN = False"
| "isFinite PosInf = False"
| "isFinite NegInf = False"

fun number_truthy :: "jsnum \<Rightarrow> bool" where
  "number_truthy (Fin a) = (a \<noteq> 0)"
| "number_truthy NaN = False"
| "number_truthy PosInf = True"
| "number_truthy NegInf = True"

definition number_or_zero :: "jsnum \<Rightarrow> jsnum" where
  "number_or_zero x = (if number_truthy x then x else Fin 0)"

section \<open>JavaScript strings\<close>

text \<open>
  A string is the list of its UTF-16 code units; \<open>units\<close> gives the string of an ASCII
  literal. \<open>trim\<close> removes white space and line terminators at both ends: tab, line feed,
  vertical tab, form feed, carriage return, space, U+00A0, U+1680, U+2000 to U+200A,
  U+2028, U+2029, U+202F, U+205F, U+3000 and U+FEFF.
\<close>

type_synonym jstring = "nat list"

definition units :: "string \<Rightarrow> jstring" where
  "units s = map of_char s"

definition is_space :: "nat \<Rightarrow> bool" where
  "is_space u =
     (u \<in> set [9, 10, 11, 12, 13, 32, 160, 5760, 8192, 8193, 8194, 8195, 8196, 8197, 8198,
                8199, 8200, 8201, 8202, 8232, 8233, 8239, 8287, 12288, 65279])"

definition trim :: "jstring \<Rightarrow> jstring" where
  "trim s = rev (dropWhile is_space (rev (dropWhile is_space s)))"

fun startsWith :: "jstring \<Rightarrow> jstring \<Rightarrow> bool" where
  "startsWith s [] = True"
| "startsWith [] (p # ps) = False"
| "startsWith (c # cs) (p # ps) = (c = p \<and> startsWith cs ps)"

fun str_includes :: "jstring \<Rightarrow> jstring \<Rightarrow> bool" where
  "str_includes [] needle = (needle = [])"
| "str_includes (c # cs) needle = (startsWith (c # cs) needle \<or> str_includes cs needle)"

text \<open>The decimal digits of a natural number, as \<open>String\<close> writes an integer.\<close>

function digits_of :: "nat \<Rightarrow> jstring" where
  "digits_of n = (if n < 10 then [48 + n] else digits_of (n div 10) @ [48 + n mod 10])"
  by pat_completeness auto
termination
  by (relation "measure id") auto

declare digits_of.simps [simp del]

section \<open>JavaScript values and the host\<close>

text \<open>
  A parsed CSV cell is a string, or with PapaParse's \<open>dynamicTyping\<close> a number, a boolean
  or \<open>null\<close>; a column missing from the row reads as \<open>undefined\<close>.
\<close>

datatype jsval = JUndefined | JNull | JBool bool | JNum jsnum | JStr jstring

text \<open>
  What the JavaScript host provides and the code only calls: \<open>Number\<close> on a string, the
  text of a number that is not a whole number below \<open>10^21\<close>, the fresh identifier of
  \<open>rid()\<close> / \<open>crypto.randomUUID()\<close> (given by the position of the row that asks for it), and
  \<open>toLowerCase\<close> on a string that has a code unit outside ASCII.
  \<open>String.prototype.localeCompare\<close> is an argument of the functions that sort.
\<close>

record host =
  Number_of_string :: "jstring \<Rightarrow> jsnum"
  String_of_number :: "rat \<Rightarrow> jstring"
  rid :: "nat \<Rightarrow> jstring"
  lower_unicode :: "jstring \<Rightarrow> jstring"

text \<open>\<open>toLowerCase\<close>: on an ASCII string the capitals \<open>A\<close> to \<open>Z\<close> become \<open>a\<close> to \<open>z\<close>.\<close>

definition lower_unit :: "nat \<Rightarrow> nat" where
  "lower_unit u = (if 65 \<le> u \<and> u \<le> 90 then u + 32 else u)"

definition toLowerCase :: "host \<Rightarrow> jstring \<Rightarrow> jstring" where
  "toLowerCase h s = (if list_all (\<lambda>u. u < 128) s then map lower_unit s else lower_unicode h s)"

text \<open>The text of a number: \<open>String(n)\<close>.\<close>

definition Number_toString :: "host \<Rightarrow> jsnum \<Rightarrow> jstring" where
  "Number_toString h n =
     (case n of
        NaN \<Rightarrow> units ''NaN''
      | PosInf \<Rightarrow> units ''Infinity''
      | NegInf \<Rightarrow> units ''-Infinity''
      | Fin r \<Rightarrow>
          if r = of_int \<lfloor>r\<rfloor> \<and> \<bar>r\<bar> < 10 ^ 21
          then (if r < 0 then 45 # digits_of (nat (- \<lfloor>r\<rfloor>)) else digits_of (nat \<lfloor>r\<rfloor>))
          else String_of_number h r)"

text \<open>\<open>Number(v)\<close>, \<open>String(v)\<close> (also \<open>v.toString()\<close> on a non-nullish primitive) and truthiness.\<close>

fun to_Number :: "host \<Rightarrow> jsval \<Rightarrow> jsnum" where
  "to_Number h JUndefined = NaN"
| "to_Number h JNull = Fin 0"
| "to_Number h (JBool b) = Fin (if b then 1 else 0)"
| "to_Number h (JNum n) = n"
| "to_Number h (JStr s) = Number_of_string h s"

fun to_String :: "host \<Rightarrow> jsval \<Rightarrow> jstring" where
  "to_String h JUndefined = units ''undefined''"
| "to_String h JNull = units ''null''"
| "to_String h (JBool b) = (if b then units ''true'' else units ''false'')"
| "to_String h (JNum n) = Number_toString h n"
| "to_String h (JStr s) = s"

fun truthy :: "jsval \<Rightarrow> bool" where
  "truthy JUndefined = False"
| "truthy JNull = False"
| "truthy (JBool b) = b"
| "truthy (JNum n) = number_truthy n"
| "truthy (JStr s) = (s \<noteq> [])"

text \<open>The nullish coalescing operator \<open>a ?? b\<close>.\<close>

definition nullish :: "jsval \<Rightarrow> bool" where
  "nullish v = (v = JUndefined \<or> v = JNull)"

definition coalesce :: "jsval \<Rightarrow> jsval \<Rightarrow> jsval" where
  "coalesce a b = (if nullish a then b else a)"

section \<open>Record normalizer\<close>

text \<open>
  A parsed row is an object from column names to cells, here an association list; a
  property that is not there reads as \<open>undefined\<close>.
\<close>

type_synonym row = "(string \<times> jsval) list"

definition field :: "row \<Rightarrow> string \<Rightarrow> jsval" where
  "field r k = (case map_of r k of None \<Rightarrow> JUndefined | Some v \<Rightarrow> v)"

text \<open>The station objects of the state: \<open>{id, feeder, name, consumers, isOut}\<close>.\<close>

record station =
  st_id :: jstring
  feeder :: jstring
  name :: jstring
  consumers :: jsnum
  isOut :: bool

text \<open>
  The object literal that every import builds from a row (the callback of \<open>map\<close>):
  \<^verbatim>\<open>
  id: row.id?.toString().trim() || rid(),
  feeder: (row.feeder ?? row.bay ?? row.feeder_name ?? "Unassigned").toString().trim(),
  name: (row.name ?? row.station ?? row.substation ?? "").toString().trim(),
  consumers: Number(row.consumers ?? row.consumer_count ?? row.count ?? 0),
  isOut: String(row.isOut ?? row.outage ?? "false").trim().toLowerCase().startsWith("t"),
  \<close>
\<close>

definition resolved_id :: "host \<Rightarrow> nat \<Rightarrow> row \<Rightarrow> jstring" where
  "resolved_id h i r =
     (if nullish (field r ''id'') then rid h i
      else if trim (to_String h (field r ''id'')) = [] then rid h i
      else trim (to_String h (field r ''id'')))"

definition resolved_feeder :: "host \<Rightarrow> row \<Rightarrow> jstring" where
  "resolved_feeder h r =
     trim (to_String h
       (coalesce (coalesce (coalesce (field r ''feeder'') (field r ''bay''))
          (field r ''feeder_name'')) (JStr (units ''Unassigned''))))"

definition resolved_name :: "host \<Rightarrow> row \<Rightarrow> jstring" where
  "resolved_name h r =
     trim (to_String h
       (coalesce (coalesce (coalesce (field r ''name'') (field r ''station''))
          (field r ''substation'')) (JStr [])))"

definition resolved_consumers :: "host \<Rightarrow> row \<Rightarrow> jsnum" where
  "resolved_consumers h r =
     to_Number h
       (coalesce (coalesce (coalesce (field r ''consumers'') (field r ''consumer_count''))
          (field r ''count'')) (JNum (Fin 0)))"

definition isOut_source :: "row \<Rightarrow> jsval" where
  "isOut_source r =
     coalesce (coalesce (field r ''isOut'') (field r ''outage'')) (JStr (units ''false''))"

definition resolved_isOut :: "host \<Rightarrow> row \<Rightarrow> bool" where
  "resolved_isOut h r =
     startsWith (toLowerCase h (trim (to_String h (isOut_source r)))) (units ''t'')"

definition normalize_row :: "host \<Rightarrow> nat \<times> row \<Rightarrow> station" where
  "normalize_row h ir =
     \<lparr> st_id = resolved_id h (fst ir) (snd ir),
       feeder = resolved_feeder h (snd ir),
       name = resolved_name h (snd ir),
       consumers = resolved_consumers h (snd ir),
       isOut = resolved_isOut h (snd ir) \<rparr>"

text \<open>
  \<open>importCsv\<close> of the first feeder dashboard (and of the two dashboards without feeders):
  map every row, then keep the objects with a non-empty name and a finite count.
\<close>

definition importCsv_rows :: "host \<Rightarrow> row list \<Rightarrow> station list" where
  "importCsv_rows h data =
     filter (\<lambda>r. name r \<noteq> [] \<and> isFinite (consumers r))
       (map (normalize_row h) (enumerate 0 data))"

text \<open>
  \<open>applyParsedRows\<close> of the paginated dashboards and of the viewer/admin dashboard: the rows
  are filtered first, on the raw columns \<open>name\<close> and \<open>consumers\<close>, and mapped afterwards.
\<close>

definition applyParsedRows_rows :: "host \<Rightarrow> row list \<Rightarrow> station list" where
  "applyParsedRows_rows h parsed =
     map (normalize_row h)
       (enumerate 0
          (filter (\<lambda>r. truthy (field r ''name'') \<and> isFinite (to_Number h (field r ''consumers'')))
             parsed))"

section \<open>Aggregation engine\<close>

text \<open>
  The state \<open>feederOut\<close> is a plain object from feeder names to booleans, here the map of its
  own properties. Reading \<open>feederOut[f]\<close> when \<open>f\<close> is not an own property goes on to
  \<open>Object.prototype\<close>, whose properties (functions, and for \<open>__proto__\<close> the prototype
  itself) are all truthy; for any other name the read is \<open>undefined\<close>.
\<close>

type_synonym overrides = "jstring \<rightharpoonup> bool"

definition Object_prototype_names :: "jstring list" where
  "Object_prototype_names =
     map units [''constructor'', ''__defineGetter__'', ''__defineSetter__'', ''hasOwnProperty'',
       ''__lookupGetter__'', ''__lookupSetter__'', ''isPrototypeOf'', ''propertyIsEnumerable'',
       ''toString'', ''valueOf'', ''__proto__'', ''toLocaleString'']"

text \<open>\<open>!!(feederOut[f])\<close>\<close>

definition feeder_off :: "overrides \<Rightarrow> jstring \<Rightarrow> bool" where
  "feeder_off F f = (case F f of None \<Rightarrow> f \<in> set Object_prototype_names | Some b \<Rightarrow> b)"

text \<open>
  The assignment \<open>obj[k] = v\<close> of a boolean: for \<open>__proto__\<close> it runs the inherited setter,
  which ignores a value that is not an object, unless the object has an own property of
  that name. (A computed key in an object literal always defines an own property.)
\<close>

definition assign_entry :: "overrides \<Rightarrow> jstring \<Rightarrow> bool \<Rightarrow> overrides" where
  "assign_entry F k v = (if k = units ''__proto__'' \<and> F k = None then F else F(k \<mapsto> v))"

text \<open>The group key of a station: \<open>(s.feeder || "Unassigned").toString()\<close>.\<close>

definition feeder_key :: "'a station_scheme \<Rightarrow> jstring" where
  "feeder_key s = (if feeder s = [] then units ''Unassigned'' else feeder s)"

text \<open>The pushed object \<open>{ ...s, effOut }\<close>.\<close>

record estation = station +
  effOut :: bool

definition with_effOut :: "station \<Rightarrow> bool \<Rightarrow> estation" where
  "with_effOut s e =
     \<lparr> st_id = st_id s, feeder = feeder s, name = name s, consumers = consumers s,
       isOut = isOut s, effOut = e \<rparr>"

record feeder_group =
  g_name :: jstring
  g_stations :: "estation list"
  g_total :: jsnum
  g_affected :: jsnum
  g_healthy :: jsnum

record totals_rec =
  total :: jsnum
  affected :: jsnum
  healthy :: jsnum
  pct :: jsnum

record aggregation =
  feeders :: "feeder_group list"
  totals :: totals_rec

definition new_group :: "jstring \<Rightarrow> feeder_group" where
  "new_group f =
     \<lparr> g_name = f, g_stations = [], g_total = Fin 0, g_affected = Fin 0, g_healthy = Fin 0 \<rparr>"

text \<open>
  One round of the loop \<open>for (const s of stations)\<close>. The \<open>Map\<close> of groups is the list of its
  values in insertion order; the accumulator also carries \<open>total\<close> and \<open>affected\<close>.
\<close>

definition agg_step ::
  "overrides \<Rightarrow> station \<Rightarrow> feeder_group list \<times> jsnum \<times> jsnum
     \<Rightarrow> feeder_group list \<times> jsnum \<times> jsnum" where
  "agg_step F s acc =
     (case acc of (groups, tot, aff) \<Rightarrow>
        let f = feeder_key s;
            groups1 = (if f \<notin> set (map g_name groups) then groups @ [new_group f] else groups);
            cons = number_or_zero (consumers s);
            eff = (feeder_off F f \<or> isOut s)
        in (map (\<lambda>g. if g_name g = f
                       then g\<lparr> g_stations := g_stations g @ [with_effOut s eff],
                               g_total := jadd (g_total g) cons,
                               g_affected := (if eff then jadd (g_affected g) cons
                                              else g_affected g) \<rparr>
                       else g) groups1,
            jadd tot cons,
            if eff then jadd aff cons else aff))"

text \<open>\<open>total > 0 ? Math.round(((affected / total) * 100) * 10) / 10 : 0\<close>\<close>

definition pct_of :: "jsnum \<Rightarrow> jsnum \<Rightarrow> jsnum" where
  "pct_of tot aff =
     (if is_positive tot
      then jdiv (Math_round (jmul (jmul (jdiv aff tot) (Fin 100)) (Fin 10))) (Fin 10)
      else Fin 0)"

text \<open>
  \<open>Array.prototype.sort\<close> with a comparison function: a stable sort, here by insertion. An
  element goes before the first one that it does not compare greater than.
\<close>

fun js_insort :: "('a \<Rightarrow> 'a \<Rightarrow> int) \<Rightarrow> 'a \<Rightarrow> 'a list \<Rightarrow> 'a list" where
  "js_insort cmp x [] = [x]"
| "js_insort cmp x (y # ys) = (if cmp x y \<le> 0 then x # y # ys else y # js_insort cmp x ys)"

definition js_sort :: "('a \<Rightarrow> 'a \<Rightarrow> int) \<Rightarrow> 'a list \<Rightarrow> 'a list" where
  "js_sort cmp xs = foldr (js_insort cmp) xs []"

definition aggregate ::
  "(jstring \<Rightarrow> jstring \<Rightarrow> int) \<Rightarrow> station list \<Rightarrow> overrides \<Rightarrow> aggregation" where
  "aggregate localeCompare sts F =
     (case fold (agg_step F) sts ([], Fin 0, Fin 0) of (groups, tot, aff) \<Rightarrow>
        \<lparr> feeders =
            js_sort (\<lambda>a b. localeCompare (g_name a) (g_name b))
              (map (\<lambda>g. g\<lparr> g_healthy := jsub (g_total g) (g_affected g) \<rparr>) groups),
          totals = \<lparr> total = tot, affected = aff, healthy = jsub tot aff,
                     pct = pct_of tot aff \<rparr> \<rparr>)"

text \<open>
  The dashboards without feeders (dark mode, updated colours) keep only the totals:
  \<open>affected\<close> sums the stations whose own \<open>isOut\<close> is set.
\<close>

definition totals_simple :: "station list \<Rightarrow> totals_rec" where
  "totals_simple sts =
     (let tot = foldl (\<lambda>acc x. jadd acc (number_or_zero (consumers x))) (Fin 0) sts;
          aff = foldl (\<lambda>acc x. jadd acc (number_or_zero (consumers x))) (Fin 0) (filter isOut sts)
      in \<lparr> total = tot, affected = aff, healthy = jsub tot aff, pct = pct_of tot aff \<rparr>)"

section \<open>Query and view layer\<close>

text \<open>
  \<open>flatRows\<close> pushes \<open>{ feeder: f.name, feederEffOut: !!feederOut[f.name], ...s }\<close>: the spread
  comes last, so the row keeps the station's own \<open>feeder\<close>.
\<close>

record flatrow = estation +
  feederEffOut :: bool

definition flatRows :: "overrides \<Rightarrow> feeder_group list \<Rightarrow> flatrow list" where
  "flatRows F fs =
     concat (map (\<lambda>f. map (\<lambda>s.
        \<lparr> st_id = st_id s, feeder = feeder s, name = name s, consumers = consumers s,
          isOut = isOut s, effOut = effOut s, feederEffOut = feeder_off F (g_name f) \<rparr>)
        (g_stations f)) fs)"

text \<open>\<open>filteredRows\<close> of the dashboards with a feeder drop-down: scope, needle, affected, sort by name.\<close>

definition filteredRows ::
  "host \<Rightarrow> (jstring \<Rightarrow> jstring \<Rightarrow> int) \<Rightarrow> jstring \<Rightarrow> bool \<Rightarrow> jstring \<Rightarrow> flatrow list
     \<Rightarrow> flatrow list" where
  "filteredRows h localeCompare qtext affectedOnly sel rows =
     (let needle = toLowerCase h (trim qtext);
          rows1 = (if sel \<noteq> units ''ALL'' then filter (\<lambda>r. feeder r = sel) rows else rows);
          rows2 = (if needle \<noteq> []
                   then filter (\<lambda>r. str_includes (toLowerCase h (name r)) needle \<or>
                                    str_includes (toLowerCase h (feeder r)) needle) rows1
                   else rows1);
          rows3 = (if affectedOnly then filter effOut rows2 else rows2)
      in js_sort (\<lambda>a b. localeCompare (name a) (name b)) rows3)"



subsection \<open>Pagination\<close>

text \<open>
  \<open>totalPages = Math.max(1, Math.ceil(filteredRows.length / pageSize))\<close>, the page size being
  one of the positive presets 25, 50, 100, 200 and 10000, and the effect
  \<open>if (page > totalPages) setPage(1)\<close> that runs when the number of filtered rows or the page
  size has changed.
\<close>

definition totalPages :: "nat \<Rightarrow> nat \<Rightarrow> nat" where
  "totalPages len ps = max 1 (nat \<lceil>(of_nat len :: rat) / of_nat ps\<rceil>)"

definition page_effect :: "nat \<Rightarrow> nat \<Rightarrow> nat \<Rightarrow> nat" where
  "page_effect pg len ps = (if pg > totalPages len ps then 1 else pg)"

text \<open>\<open>pageRows\<close>: \<open>filteredRows.slice(start, start + pageSize)\<close> with \<open>start = (page - 1) * pageSize\<close>.\<close>

definition pageRows :: "nat \<Rightarrow> nat \<Rightarrow> 'a list \<Rightarrow> 'a list" where
  "pageRows pg ps rows = take ps (drop ((pg - 1) * ps) rows)"

section \<open>State and actions\<close>

record dashboard =
  stations :: "station list"
  feederOut :: overrides
  q :: jstring
  showAffectedOnly :: bool
  page :: nat
  pageSize :: nat
  selectedFeeder :: jstring

text \<open>\<open>setFeederOut(prev => ({ ...prev, [name]: !prev[name] }))\<close>\<close>

definition toggleFeeder :: "jstring \<Rightarrow> dashboard \<Rightarrow> dashboard" where
  "toggleFeeder n d = d\<lparr> feederOut := (feederOut d)(n \<mapsto> \<not> feeder_off (feederOut d) n) \<rparr>"

text \<open>\<open>setStations(prev => prev.map(s => (s.id === id ? { ...s, isOut: !s.isOut } : s)))\<close>\<close>

definition toggleStation :: "jstring \<Rightarrow> dashboard \<Rightarrow> dashboard" where
  "toggleStation i d =
     d\<lparr> stations := map (\<lambda>s. if st_id s = i then s\<lparr> isOut := \<not> isOut s \<rparr> else s) (stations d) \<rparr>"

text \<open>The viewer/admin dashboard: \<open>if (viewerOnly) return;\<close> stands before both updates.\<close>

definition toggleFeeder_viewer :: "bool \<Rightarrow> jstring \<Rightarrow> dashboard \<Rightarrow> dashboard" where
  "toggleFeeder_viewer viewerOnly n d = (if viewerOnly then d else toggleFeeder n d)"

definition toggleStation_viewer :: "bool \<Rightarrow> jstring \<Rightarrow> dashboard \<Rightarrow> dashboard" where
  "toggleStation_viewer viewerOnly i d = (if viewerOnly then d else toggleStation i d)"

text \<open>
  The feeder toggles after an import:
  \<^verbatim>\<open>
  const initialFeederOut = {};
  for (const r of rows)
    initialFeederOut[r.feeder] = String((r.feeder_isOut ?? "false")).toLowerCase().startsWith("t");
  \<close>
  Here \<open>r\<close> is a normalized object, which has the five properties of a station and no other:
  reading \<open>feeder_isOut\<close> from it gives \<open>undefined\<close>.
\<close>

definition feeder_isOut :: "station \<Rightarrow> jsval" where
  "feeder_isOut r = JUndefined"

definition initialFeederOut :: "host \<Rightarrow> station list \<Rightarrow> overrides" where
  "initialFeederOut h rows =
     fold (\<lambda>r F. assign_entry F (feeder r)
             (startsWith (toLowerCase h
                (to_String h (coalesce (feeder_isOut r) (JStr (units ''false''))))) (units ''t'')))
       rows Map.empty"

text \<open>The state after \<open>importCsv\<close> of the first feeder dashboard, and after \<open>applyParsedRows\<close>.\<close>

definition importCsv :: "host \<Rightarrow> row list \<Rightarrow> dashboard \<Rightarrow> dashboard" where
  "importCsv h data d =
     d\<lparr> stations := importCsv_rows h data,
        feederOut := initialFeederOut h (importCsv_rows h data) \<rparr>"

definition applyParsedRows :: "host \<Rightarrow> row list \<Rightarrow> dashboard \<Rightarrow> dashboard" where
  "applyParsedRows h parsed d =
     d\<lparr> stations := applyParsedRows_rows h parsed,
        feederOut := initialFeederOut h (applyParsedRows_rows h parsed),
        selectedFeeder := units ''ALL'',
        page := 1 \<rparr>"

text \<open>
  The rows on display for a state, and the page effect run against them: \<open>len\<close> is
  \<open>filteredRows.length\<close> of the render in which the effect fires.
\<close>

definition visible_rows :: "host \<Rightarrow> (jstring \<Rightarrow> jstring \<Rightarrow> int) \<Rightarrow> dashboard \<Rightarrow> flatrow list" where
  "visible_rows h localeCompare d =
     filteredRows h localeCompare (q d) (showAffectedOnly d) (selectedFeeder d)
       (flatRows (feederOut d) (feeders (aggregate localeCompare (stations d) (feederOut d))))"

definition page_reset :: "nat \<Rightarrow> dashboard \<Rightarrow> dashboard" where
  "page_reset len d = d\<lparr> page := page_effect (page d) len (pageSize d) \<rparr>"

section \<open>Snapshot publish endpoint\<close>
















section \<open>Reference definitions for the proofs\<close>

text \<open>
  The loop of the aggregation in closed form: what a station contributes, the running sum
  of a list of numbers from 0, the feeder keys in the order of their first station, and the
  group that the loop has built for a key once it has gone through the stations \<open>sts\<close>
  (before \<open>healthy\<close> is filled in).
\<close>

definition cons_of :: "'a station_scheme \<Rightarrow> jsnum" where
  "cons_of s = number_or_zero (consumers s)"

definition eff_of :: "overrides \<Rightarrow> station \<Rightarrow> bool" where
  "eff_of F s = (feeder_off F (feeder_key s) \<or> isOut s)"

definition running_sum :: "jsnum list \<Rightarrow> jsnum" where
  "running_sum xs = foldl jadd (Fin 0) xs"

definition first_keys :: "station list \<Rightarrow> jstring list" where
  "first_keys sts = rev (remdups (rev (map feeder_key sts)))"

definition group_of :: "overrides \<Rightarrow> station list \<Rightarrow> jstring \<Rightarrow> feeder_group" where
  "group_of F sts f =
     \<lparr> g_name = f,
       g_stations = map (\<lambda>s. with_effOut s (eff_of F s)) (filter (\<lambda>s. feeder_key s = f) sts),
       g_total = running_sum (map cons_of (filter (\<lambda>s. feeder_key s = f) sts)),
       g_affected =
         running_sum (map cons_of (filter (eff_of F) (filter (\<lambda>s. feeder_key s = f) sts))),
       g_healthy = Fin 0 \<rparr>"

text \<open>A count that is a whole number, and its value.\<close>

definition whole :: "jsnum \<Rightarrow> bool" where
  "whole c = (case c of Fin r \<Rightarrow> r = of_int \<lfloor>r\<rfloor> | NaN \<Rightarrow> False | PosInf \<Rightarrow> False | NegInf \<Rightarrow> False)"

definition whole_of :: "jsnum \<Rightarrow> int" where
  "whole_of c = (case c of Fin r \<Rightarrow> \<lfloor>r\<rfloor> | NaN \<Rightarrow> 0 | PosInf \<Rightarrow> 0 | NegInf \<Rightarrow> 0)"

text \<open>A number that is not below zero (\<open>NaN\<close> is not).\<close>

definition not_negative :: "jsnum \<Rightarrow> bool" where
  "not_negative c = (case c of Fin r \<Rightarrow> 0 \<le> r | NaN \<Rightarrow> True | PosInf \<Rightarrow> True | NegInf \<Rightarrow> False)"

text \<open>
  Rounding as the specification words it: half away from zero on \<open>value * 10\<close>, divided by
  10, and 0 when the total is 0.
\<close>

fun round_half_away :: "jsnum \<Rightarrow> jsnum" where
  "round_half_away (Fin x) = Fin (of_int (if 0 \<le> x then \<lfloor>x + 1 / 2\<rfloor> else \<lceil>x - 1 / 2\<rceil>))"
| "round_half_away NaN = NaN"
| "round_half_away PosInf = PosInf"
| "round_half_away NegInf = NegInf"

definition pct_half_away :: "jsnum \<Rightarrow> jsnum \<Rightarrow> jsnum" where
  "pct_half_away tot aff =
     (if tot = Fin 0 then Fin 0
      else jdiv (round_half_away (jmul (jmul (jdiv aff tot) (Fin 100)) (Fin 10))) (Fin 10))"

text \<open>The first non-missing of some cells, else a default, as the specification words the resolution of a field.\<close>

fun first_present :: "jsval list \<Rightarrow> jsval \<Rightarrow> jsval" where
  "first_present [] d = d"
| "first_present (v # vs) d = (if nullish v then first_present vs d else v)"

text \<open>A comparison function for the examples: by code units, as \<open>localeCompare\<close> orders ASCII capitals and digits.\<close>

fun compare_codes :: "jstring \<Rightarrow> jstring \<Rightarrow> int" where
  "compare_codes [] [] = 0"
| "compare_codes [] (y # ys) = - 1"
| "compare_codes (x # xs) [] = 1"
| "compare_codes (x # xs) (y # ys) =
     (if x < y then - 1 else if y < x then 1 else compare_codes xs ys)"

text \<open>Stations and states of the examples.\<close>

definition mk_station :: "string \<Rightarrow> string \<Rightarrow> string \<Rightarrow> rat \<Rightarrow> bool \<Rightarrow> station" where
  "mk_station i f n c out =
     \<lparr> st_id = units i, feeder = units f, name = units n, consumers = Fin c, isOut = out \<rparr>"

definition mk_dashboard :: "station list \<Rightarrow> overrides \<Rightarrow> dashboard" where
  "mk_dashboard sts F =
     \<lparr> stations = sts, feederOut = F, q = [], showAffectedOnly = False, page = 1,
       pageSize = 50, selectedFeeder = units ''ALL'' \<rparr>"

definition example_stations :: "station list" where
  "example_stations =
     [mk_station ''1'' ''F1'' ''A'' 40 True, mk_station ''2'' ''F1'' ''B'' 60 False,
      mk_station ''3'' ''F2'' ''C'' 100 False]"

section \<open>Properties of the number model\<close>


section \<open>Properties of the number model\<close>

lemma round_half_even_of_int [simp]: "round_half_even (of_int k) = k"
  by (simp add: round_half_even_def)

lemma round_half_even_nonneg: "0 \<le> x \<Longrightarrow> 0 \<le> round_half_even x"
  by (auto simp: round_half_even_def)

lemma dbl_magnitude_nonneg: "0 \<le> dbl_magnitude x"
  by (simp add: dbl_magnitude_def round_half_even_nonneg)

lemma floor_log2_whole:
  assumes "1 \<le> n" and "n < 2 ^ 53"
  shows "floor_log2 (of_int n) \<le> 52"
proof -
  from assms(1) have pos: "0 < n" by simp
  from bitlen_bounds [OF pos] have "(2::int) ^ nat (bitlen n - 1) \<le> n" by simp
  from this assms(2) have "(2::int) ^ nat (bitlen n - 1) < 2 ^ 53" by (rule le_less_trans)
  then have "nat (bitlen n - 1) < 53" by (rule power_less_imp_less_exp [rotated]) simp
  then have "bitlen n - 1 < 53" by simp
  moreover from assms(1) have "floor_log2 (of_int n) = bitlen n - 1"
    by (simp add: floor_log2_def)
  ultimately show ?thesis by simp
qed

lemma dbl_magnitude_whole:
  assumes "n \<noteq> 0" and "\<bar>n\<bar> < 2 ^ 53"
  shows "dbl_magnitude (of_int n) = of_int \<bar>n\<bar>"
proof -
  define e where "e = ulp_exponent (of_int n)"
  from assms have "1 \<le> \<bar>n\<bar>" by simp
  from floor_log2_whole [OF this assms(2)] have "floor_log2 \<bar>of_int n\<bar> \<le> 52"
    by (simp flip: of_int_abs)
  then have e0: "e \<le> 0" by (simp add: e_def ulp_exponent_def)
  define k where "k = nat (- e)"
  from e0 have e: "e = - int k" by (simp add: k_def)
  have p: "(2::rat) powi e = 1 / 2 ^ k"
    by (simp add: e power_int_minus_divide)
  have "\<bar>of_int n :: rat\<bar> / 2 powi e = of_int (\<bar>n\<bar> * 2 ^ k)"
    by (simp add: p)
  then have "round_half_even (\<bar>of_int n :: rat\<bar> / 2 powi e) = \<bar>n\<bar> * 2 ^ k"
    by (simp only: round_half_even_of_int)
  then show ?thesis
    by (simp add: dbl_magnitude_def e_def [symmetric] p)
qed

lemma dbl_whole:
  assumes "\<bar>n\<bar> < 2 ^ 53"
  shows "dbl (of_int n) = Fin (of_int n)"
proof (cases "n = 0")
  case True
  then show ?thesis by (simp add: dbl_def)
next
  case False
  have small: "\<not> (2::rat) ^ 1024 \<le> of_int \<bar>n\<bar>"
  proof -
    from assms have "(of_int \<bar>n\<bar> :: rat) < of_int (2 ^ 53)" by (simp only: of_int_less_iff)
    also have "\<dots> = 2 ^ 53" by (simp only: of_int_power of_int_numeral)
    also have "\<dots> \<le> 2 ^ 1024" by (rule power_increasing) simp_all
    finally show ?thesis by (simp only: not_le)
  qed
  show ?thesis
    using False small by (auto simp: dbl_def dbl_magnitude_whole [OF False assms])
qed

lemma jadd_whole:
  assumes "\<bar>a + b\<bar> < 2 ^ 53"
  shows "jadd (Fin (of_int a)) (Fin (of_int b)) = Fin (of_int (a + b))"
  using dbl_whole [OF assms] by (simp only: jadd.simps of_int_add)

lemma jsub_whole:
  assumes "\<bar>a - b\<bar> < 2 ^ 53"
  shows "jsub (Fin (of_int a)) (Fin (of_int b)) = Fin (of_int (a - b))"
proof -
  have eq: "(of_int a :: rat) + - of_int b = of_int (a - b)" by simp
  show ?thesis
    by (simp only: jsub_def jneg.simps jadd.simps eq dbl_whole [OF assms])
qed

lemma dbl_not_negative: "0 \<le> x \<Longrightarrow> not_negative (dbl x)"
  using dbl_magnitude_nonneg [of x] by (simp add: dbl_def not_negative_def)

lemma running_sum_snoc [simp]: "running_sum (xs @ [x]) = jadd (running_sum xs) x"
  by (simp add: running_sum_def)

lemma running_sum_Nil [simp]: "running_sum [] = Fin 0"
  by (simp add: running_sum_def)

text \<open>
  Whole numbers whose absolute values sum to less than \<open>2^53\<close> are added without rounding,
  in any selection.
\<close>

lemma running_sum_whole:
  assumes "sum_list (map abs ns) < 2 ^ 53"
  shows "running_sum (map (\<lambda>n. Fin (of_int n)) ns) = Fin (of_int (sum_list ns))"
  using assms
proof (induction ns rule: rev_induct)
  case Nil
  show ?case by simp
next
  case (snoc n ns)
  from snoc.prems have b: "sum_list (map abs ns) < 2 ^ 53" by simp
  have "\<bar>sum_list ns + n\<bar> \<le> sum_list (map abs ns) + \<bar>n\<bar>"
    using sum_list_abs [of ns] by simp
  with snoc.prems have "\<bar>sum_list ns + n\<bar> < 2 ^ 53" by simp
  then have "jadd (Fin (of_int (sum_list ns))) (Fin (of_int n)) = Fin (of_int (sum_list ns + n))"
    by (rule jadd_whole)
  then show ?case
    by (simp add: snoc.IH [OF b] del: of_int_add)
qed

lemma sum_abs_filter: "sum_list (map abs (filter P ns)) \<le> sum_list (map abs ns)" for ns :: "int list"
  by (induction ns) auto


lemma bitlen_unique:
  assumes "(2::int) ^ k \<le> n" and "n < 2 ^ Suc k"
  shows "bitlen n = int k + 1"
proof -
  from assms(1) have pos: "0 < n"
    by (meson less_le_trans zero_less_numeral zero_less_power)
  from bitlen_bounds [OF pos]
  have lo: "(2::int) ^ nat (bitlen n - 1) \<le> n" and hi: "n < 2 ^ nat (bitlen n)" by simp_all
  from pos have b1: "1 \<le> bitlen n"
    using bitlen_eq_zero_iff [of n] bitlen_nonneg [of n] by linarith
  from lo assms(2) have "(2::int) ^ nat (bitlen n - 1) < 2 ^ Suc k" by (rule le_less_trans)
  then have "nat (bitlen n - 1) < Suc k" by (rule power_less_imp_less_exp [rotated]) simp
  moreover from assms(1) hi have "(2::int) ^ k < 2 ^ nat (bitlen n)" by (rule le_less_trans)
  then have "k < nat (bitlen n)" by (rule power_less_imp_less_exp [rotated]) simp
  ultimately show ?thesis using b1 by linarith
qed

lemma floor_log2_ge1:
  assumes "(2::rat) ^ k \<le> x" and "x < 2 ^ Suc k"
  shows "floor_log2 x = int k"
proof -
  have one: "1 \<le> x"
    using assms(1) by (meson one_le_numeral one_le_power order_trans)
  have "(of_int (2 ^ k) :: rat) \<le> x" using assms(1) by simp
  then have lo: "(2::int) ^ k \<le> \<lfloor>x\<rfloor>" by (simp only: le_floor_iff)
  have "x < of_int (2 ^ Suc k)" using assms(2) by simp
  then have hi: "\<lfloor>x\<rfloor> < 2 ^ Suc k" by (simp only: floor_less_iff)
  from bitlen_unique [OF lo hi] one show ?thesis
    by (simp add: floor_log2_def)
qed

lemma floor_log2_lt1:
  assumes "0 < x" and "1 / 2 ^ Suc k \<le> x" and "x < 1 / (2::rat) ^ k"
  shows "floor_log2 x = - int (Suc k)"
proof -
  have lt1: "\<not> 1 \<le> x"
  proof -
    have "1 / (2::rat) ^ k \<le> 1" by simp
    with assms(3) show ?thesis by linarith
  qed
  have a: "(2::rat) ^ k < 1 / x"
    using assms(1,3) by (simp add: field_simps)
  have b: "1 / x \<le> (2::rat) ^ Suc k"
    using assms(1,2) by (simp add: field_simps)
  from a have "of_int (2 ^ k) < 1 / x" by simp
  then have "(2::int) ^ k < \<lceil>1 / x\<rceil>" by (simp only: less_ceiling_iff)
  then have lo: "(2::int) ^ k \<le> \<lceil>1 / x\<rceil> - 1" by simp
  from b have "1 / x \<le> of_int (2 ^ Suc k)" by simp
  then have "\<lceil>1 / x\<rceil> \<le> (2::int) ^ Suc k" by (simp only: ceiling_le_iff)
  then have hi: "\<lceil>1 / x\<rceil> - 1 < (2::int) ^ Suc k" by simp
  from bitlen_unique [OF lo hi] lt1 show ?thesis
    by (simp add: floor_log2_def)
qed


lemma round_half_even_near:
  assumes "of_int m - 1 / 2 < y" and "y < of_int m + 1 / 2"
  shows "round_half_even y = m"
proof -
  have "\<lfloor>y\<rfloor> = m \<or> \<lfloor>y\<rfloor> = m - 1"
  proof -
    from assms have "of_int (m - 1) \<le> y" "y < of_int (m + 1)" by simp_all
    then have "m - 1 \<le> \<lfloor>y\<rfloor>" "\<lfloor>y\<rfloor> < m + 1"
      by (simp_all only: le_floor_iff floor_less_iff)
    then show ?thesis by linarith
  qed
  then show ?thesis
  proof
    assume f: "\<lfloor>y\<rfloor> = m"
    with assms(2) have "y - of_int \<lfloor>y\<rfloor> < 1 / 2" by simp
    then show ?thesis by (simp add: round_half_even_def f)
  next
    assume f: "\<lfloor>y\<rfloor> = m - 1"
    with assms(1) have "1 / 2 < y - of_int \<lfloor>y\<rfloor>" by simp
    then show ?thesis by (simp add: round_half_even_def f)
  qed
qed

lemma floor_log2_scaled_gen:
  assumes "0 < x" and "2 ^ p \<le> x * 2 ^ k" and "x * 2 ^ k < 2 ^ Suc p"
  shows "floor_log2 x = int p - int k"
proof (cases "k \<le> p")
  case True
  then obtain j where j: "p = j + k" by (metis le_add_diff_inverse2)
  have "(2::rat) ^ j * 2 ^ k \<le> x * 2 ^ k"
    using assms(2) by (simp only: j power_add)
  then have lo: "(2::rat) ^ j \<le> x" by simp
  have "Suc p = Suc j + k" by (simp add: j)
  then have "x * 2 ^ k < (2::rat) ^ Suc j * 2 ^ k"
    using assms(3) by (simp only: power_add)
  then have hi: "x < (2::rat) ^ Suc j" by simp
  from floor_log2_ge1 [OF lo hi] j show ?thesis by simp
next
  case False
  then obtain j where j: "k = p + Suc j"
    by (metis add_Suc_right less_imp_Suc_add not_le)
  have "x * 2 ^ k = (x * 2 ^ Suc j) * 2 ^ p" by (simp add: j power_add)
  with assms(2) have "1 * (2::rat) ^ p \<le> (x * 2 ^ Suc j) * 2 ^ p" by simp
  then have "1 \<le> x * 2 ^ Suc j" by (simp only: mult_le_cancel_right) simp
  then have lo: "1 / 2 ^ Suc j \<le> x" by (simp add: field_simps)
  have "x * 2 ^ k = (x * 2 ^ j) * 2 ^ Suc p" by (simp add: j power_add)
  with assms(3) have "(x * 2 ^ j) * 2 ^ Suc p < 1 * (2::rat) ^ Suc p" by simp
  then have "x * 2 ^ j < 1" by (simp only: mult_less_cancel_right) simp
  then have hi: "x < 1 / 2 ^ j" by (simp add: field_simps)
  from floor_log2_lt1 [OF assms(1) lo hi] j show ?thesis by simp
qed

lemma floor_log2_scaled:
  assumes "0 < x" and "2 ^ 52 \<le> x * 2 ^ k" and "x * 2 ^ k < 2 ^ 53"
  shows "floor_log2 x = 52 - int k"
proof -
  have "Suc 52 = 53" by simp
  with assms(3) have "x * 2 ^ k < 2 ^ Suc 52" by (simp only:)
  from floor_log2_scaled_gen [OF assms(1,2) this] show ?thesis by simp
qed

lemma round_half_even_tie:
  "round_half_even (of_int f + 1 / 2) = (if even f then f else f + 1)"
proof -
  have fl: "\<lfloor>(of_int f + 1 / 2 :: rat)\<rfloor> = f"
    by (simp add: floor_eq_iff)
  show ?thesis
    by (simp add: round_half_even_def fl)
qed

text \<open>
  A positive real that, scaled by \<open>2^k\<close>, lies in the range of the 53-bit significands is
  rounded to the nearest integer on that scale: the integer less than a half away, or at
  a tie the even one.
\<close>

lemma dbl_scaled:
  assumes "0 < x" and "k \<le> 1074" and "2 ^ 52 \<le> x * 2 ^ k" and "x * 2 ^ k < 2 ^ 53"
  shows "dbl x = Fin (of_int (round_half_even (x * 2 ^ k)) / 2 ^ k)"
proof -
  define m where "m = round_half_even (x * 2 ^ k)"
  from assms(1) have ax: "\<bar>x\<bar> = x" by simp
  have e: "ulp_exponent x = - int k"
    using floor_log2_scaled [OF assms(1,3,4)] assms(2) by (simp add: ulp_exponent_def ax)
  have p: "(2::rat) powi (- int k) = 1 / 2 ^ k"
    by (simp add: power_int_minus_divide)
  have mag: "dbl_magnitude x = of_int m / 2 ^ k"
    by (simp add: dbl_magnitude_def e p ax m_def)
  have up: "(of_int m :: rat) \<le> x * 2 ^ k + 1"
  proof -
    have "m \<le> \<lfloor>x * 2 ^ k\<rfloor> + 1" by (simp add: m_def round_half_even_def)
    then have "(of_int m :: rat) \<le> of_int (\<lfloor>x * 2 ^ k\<rfloor> + 1)" by (simp only: of_int_le_iff)
    also have "\<dots> \<le> x * 2 ^ k + 1" by simp
    finally show ?thesis .
  qed
  have m0: "0 \<le> (of_int m :: rat)"
  proof -
    from assms(1) have "0 \<le> x * 2 ^ k" by simp
    then have "0 \<le> m" unfolding m_def by (rule round_half_even_nonneg)
    then show ?thesis by simp
  qed
  note up
  also have "x * 2 ^ k + 1 < 2 ^ 53 + 1" using assms(4) by simp
  also have "\<dots> \<le> (2::rat) ^ 54" by simp
  finally have m54: "(of_int m :: rat) < 2 ^ 54" .
  have "of_int m / 2 ^ k \<le> (of_int m :: rat)"
  proof -
    have "(1::rat) \<le> 2 ^ k" by simp
    with m0 have "(of_int m :: rat) * 1 \<le> of_int m * 2 ^ k"
      by (intro mult_left_mono)
    then show ?thesis
      by (simp add: field_simps)
  qed
  also note m54
  also have "(2::rat) ^ 54 \<le> 2 ^ 1024" by (rule power_increasing) simp_all
  finally have small: "\<not> (2::rat) ^ 1024 \<le> of_int m / 2 ^ k" by (simp only: not_le)
  from assms(1) small show ?thesis
    by (simp only: dbl_def mag m_def [symmetric]) simp
qed

lemma dbl_near:
  assumes "0 < x" and "k \<le> 1074" and "2 ^ 52 \<le> x * 2 ^ k" and "x * 2 ^ k < 2 ^ 53"
    and "of_int m - 1 / 2 < x * 2 ^ k" and "x * 2 ^ k < of_int m + 1 / 2"
  shows "dbl x = Fin (of_int m / 2 ^ k)"
  using dbl_scaled [OF assms(1-4)] round_half_even_near [OF assms(5,6)] by simp

lemma dbl_tie:
  assumes "0 < x" and "k \<le> 1074" and "2 ^ 52 \<le> x * 2 ^ k" and "x * 2 ^ k < 2 ^ 53"
    and "x * 2 ^ k = of_int f + 1 / 2" and "m = (if even f then f else f + 1)"
  shows "dbl x = Fin (of_int m / 2 ^ k)"
  using dbl_scaled [OF assms(1-4)] round_half_even_tie [of f] assms(5,6) by simp

lemma dbl_minus: "dbl (- x) = jneg (dbl x)"
  by (simp add: dbl_def dbl_magnitude_def ulp_exponent_def)

lemma dbl_numeral [simp]: "numeral n < (2::int) ^ 53 \<Longrightarrow> dbl (numeral n) = Fin (numeral n)"
  using dbl_whole [of "numeral n"] by simp

lemma dbl_neg_numeral [simp]:
  "numeral n < (2::int) ^ 53 \<Longrightarrow> dbl (- numeral n) = Fin (- numeral n)"
  using dbl_whole [of "- numeral n"] by simp

lemma dbl_0 [simp]: "dbl 0 = Fin 0"
  by (simp add: dbl_def)

lemma dbl_1 [simp]: "dbl 1 = Fin 1"
  using dbl_whole [of 1] by simp

lemma dbl_minus_1 [simp]: "dbl (- 1) = Fin (- 1)"
  using dbl_whole [of "- 1"] by simp


section \<open>Properties of the viewer gate and of pagination\<close>

text \<open>
  C10. In the viewer/admin dashboard with \<open>viewerOnly = true\<close>, \<open>toggleFeeder\<close> and
  \<open>toggleStation\<close> return at once: for every feeder name and station id the state, and with it
  the station set and the feeder override map, is unchanged.
\<close>

theorem viewer_toggles_are_noops:
  "toggleFeeder_viewer True n d = d \<and> toggleStation_viewer True i d = d \<and>
   stations (toggleFeeder_viewer True n d) = stations d \<and>
   feederOut (toggleFeeder_viewer True n d) = feederOut d \<and>
   stations (toggleStation_viewer True i d) = stations d \<and>
   feederOut (toggleStation_viewer True i d) = feederOut d"
  by (simp add: toggleFeeder_viewer_def toggleStation_viewer_def)

lemma admin_toggles_act:
  "toggleFeeder_viewer False n d = toggleFeeder n d \<and>
   toggleStation_viewer False i d = toggleStation i d"
  by (simp add: toggleFeeder_viewer_def toggleStation_viewer_def)

lemma totalPages_ge_1: "1 \<le> totalPages len ps"
  by (simp add: totalPages_def)

lemma totalPages_example: "totalPages 120 50 = 3 \<and> totalPages 10 50 = 1"
proof -
  have a: "\<lceil>(12::rat) / 5\<rceil> = 3" by (simp add: ceiling_eq_iff)
  have b: "\<lceil>(1::rat) / 5\<rceil> = 1" by (simp add: ceiling_eq_iff)
  show ?thesis by (simp add: totalPages_def a b)
qed

text \<open>
  C5. Whenever the page effect runs (the number of filtered rows or the page size has
  changed) and the current page is beyond the new number of pages, the page becomes 1: not
  the last page, and never 0. A page that is in range stays.
\<close>

theorem page_resets_to_first:
  assumes "0 < pageSize d" and "totalPages len (pageSize d) < page d"
  shows "page (page_reset len d) = 1 \<and> page_effect (page d) len (pageSize d) = 1 \<and>
         page (page_reset len d) \<le> totalPages len (pageSize d)"
  using assms totalPages_ge_1 [of len "pageSize d"] by (simp add: page_reset_def page_effect_def)

theorem page_resets_to_first_witness:
  "0 < pageSize ((mk_dashboard [] Map.empty)\<lparr> page := 3 \<rparr>) \<and>
   totalPages 10 (pageSize ((mk_dashboard [] Map.empty)\<lparr> page := 3 \<rparr>))
     < page ((mk_dashboard [] Map.empty)\<lparr> page := 3 \<rparr>) \<and>
   totalPages 120 50 = 3 \<and>
   page (page_reset 120 ((mk_dashboard [] Map.empty)\<lparr> page := 3 \<rparr>)) = 3 \<and>
   page (page_reset 10 ((mk_dashboard [] Map.empty)\<lparr> page := 3 \<rparr>)) = 1"
proof -
  let ?d = "(mk_dashboard [] Map.empty)\<lparr> page := 3 \<rparr>"
  have ps: "0 < pageSize ?d" by (simp add: mk_dashboard_def)
  have out: "totalPages 10 (pageSize ?d) < page ?d"
    using totalPages_example by (simp add: mk_dashboard_def)
  have stay: "page (page_reset 120 ?d) = 3"
    using totalPages_example by (simp add: mk_dashboard_def page_reset_def page_effect_def)
  from page_resets_to_first [OF ps out] ps out stay totalPages_example
  show ?thesis by simp
qed

lemma page_in_range_stays:
  "page d \<le> totalPages len (pageSize d) \<Longrightarrow> page_reset len d = d"
  by (simp add: page_reset_def page_effect_def)

section \<open>Properties of the record normalizer\<close>

lemma lower_unit_is_t: "lower_unit u = 116 \<longleftrightarrow> u = 116 \<or> u = 84"
  by (auto simp: lower_unit_def)

lemma startsWith_t: "startsWith s (units ''t'') \<longleftrightarrow> (\<exists>cs. s = 116 # cs)"
  by (cases s) (simp_all add: units_def)

lemma isOut_source_first_present:
  "isOut_source r =
     first_present [field r ''isOut'', field r ''outage''] (JStr (units ''false''))"
  by (simp add: isOut_source_def coalesce_def)

lemma toLowerCase_starts_t:
  "startsWith (toLowerCase h s) (units ''t'') =
     (if list_all (\<lambda>u. u < 128) s then (\<exists>cs. s = 116 # cs \<or> s = 84 # cs)
      else startsWith (lower_unicode h s) (units ''t''))"
  by (cases s) (auto simp: toLowerCase_def startsWith_t lower_unit_is_t)

lemma digits_of_first: "\<exists>d ds. digits_of n = d # ds \<and> 48 \<le> d \<and> d \<le> 57"
proof (induction n rule: digits_of.induct)
  case (1 n)
  show ?case
  proof (cases "n < 10")
    case True
    then show ?thesis by (simp add: digits_of.simps [of n])
  next
    case False
    with 1 obtain d ds where "digits_of (n div 10) = d # ds" "48 \<le> d" "d \<le> 57" by blast
    with False show ?thesis by (simp add: digits_of.simps [of n])
  qed
qed

lemma digits_of_1: "digits_of (Suc 0) = [49]"
  by (subst digits_of.simps) simp

lemmas normalize_eval =
  normalize_row_def resolved_isOut_def resolved_name_def resolved_feeder_def
  resolved_consumers_def resolved_id_def isOut_source_def coalesce_def nullish_def
  field_def trim_def is_space_def toLowerCase_def lower_unit_def units_def
  Number_toString_def

text \<open>
  C7. The normalized \<open>isOut\<close> of a row is true exactly when the text of the first
  non-missing of its cells \<open>isOut\<close> and \<open>outage\<close> (else of \<open>"false"\<close>), trimmed and in lower
  case, starts with \<open>t\<close>; for an ASCII text that is when the trimmed text starts with \<open>t\<close> or
  \<open>T\<close>. So \<open>"true"\<close>, \<open>"T"\<close> and \<open>"TRUE"\<close> give true, also behind a no-break space or a byte
  order mark and for the boolean \<open>true\<close>; \<open>"1"\<close>, the number 1, \<open>"false"\<close> and a row without
  these cells give false.
\<close>

theorem isOut_coercion:
  "isOut (normalize_row h (i, r)) =
     startsWith (toLowerCase h (trim (to_String h
       (first_present [field r ''isOut'', field r ''outage''] (JStr (units ''false''))))))
       (units ''t'') \<and>
   isOut (normalize_row h (i, r)) =
     (if list_all (\<lambda>u. u < 128) (trim (to_String h (isOut_source r)))
      then (\<exists>cs. trim (to_String h (isOut_source r)) = 116 # cs \<or>
                 trim (to_String h (isOut_source r)) = 84 # cs)
      else startsWith (lower_unicode h (trim (to_String h (isOut_source r)))) (units ''t'')) \<and>
   isOut (normalize_row h (i, [(''isOut'', JStr (units ''true''))])) \<and>
   isOut (normalize_row h (i, [(''isOut'', JStr (units ''T''))])) \<and>
   isOut (normalize_row h (i, [(''isOut'', JStr (units ''TRUE''))])) \<and>
   isOut (normalize_row h (i, [(''outage'', JStr (units '' True ''))])) \<and>
   isOut (normalize_row h (i, [(''isOut'', JStr (160 # units ''true''))])) \<and>
   isOut (normalize_row h (i, [(''isOut'', JStr (65279 # units ''TRUE''))])) \<and>
   isOut (normalize_row h (i, [(''isOut'', JBool True)])) \<and>
   \<not> isOut (normalize_row h (i, [(''isOut'', JStr (units ''1''))])) \<and>
   \<not> isOut (normalize_row h (i, [(''isOut'', JNum (Fin 1))])) \<and>
   \<not> isOut (normalize_row h (i, [(''isOut'', JStr (units ''false''))])) \<and>
   \<not> isOut (normalize_row h (i, [(''isOut'', JBool False)])) \<and>
   \<not> isOut (normalize_row h (i, [(''name'', JStr (units ''S1''))]))"
proof -
  have general: "isOut (normalize_row h (i, r)) =
      startsWith (toLowerCase h (trim (to_String h
        (first_present [field r ''isOut'', field r ''outage''] (JStr (units ''false''))))))
        (units ''t'')"
    by (simp add: normalize_row_def resolved_isOut_def isOut_source_first_present)
  have chars: "isOut (normalize_row h (i, r)) =
     (if list_all (\<lambda>u. u < 128) (trim (to_String h (isOut_source r)))
      then (\<exists>cs. trim (to_String h (isOut_source r)) = 116 # cs \<or>
                 trim (to_String h (isOut_source r)) = 84 # cs)
      else startsWith (lower_unicode h (trim (to_String h (isOut_source r)))) (units ''t''))"
    by (simp only: normalize_row_def resolved_isOut_def toLowerCase_starts_t station.simps snd_conv)
  have e1: "isOut (normalize_row h (i, [(''isOut'', JStr (units ''true''))]))"
    by (simp add: normalize_eval)
  have e2: "isOut (normalize_row h (i, [(''isOut'', JStr (units ''T''))]))"
    by (simp add: normalize_eval)
  have e3: "isOut (normalize_row h (i, [(''isOut'', JStr (units ''TRUE''))]))"
    by (simp add: normalize_eval)
  have e4: "isOut (normalize_row h (i, [(''outage'', JStr (units '' True ''))]))"
    by (simp add: normalize_eval)
  have e5: "isOut (normalize_row h (i, [(''isOut'', JStr (160 # units ''true''))]))"
    by (simp add: normalize_eval)
  have e6: "isOut (normalize_row h (i, [(''isOut'', JStr (65279 # units ''TRUE''))]))"
    by (simp add: normalize_eval)
  have e7: "isOut (normalize_row h (i, [(''isOut'', JBool True)]))"
    by (simp add: normalize_eval)
  have n1: "\<not> isOut (normalize_row h (i, [(''isOut'', JStr (units ''1''))]))"
    by (simp add: normalize_eval)
  have n2: "\<not> isOut (normalize_row h (i, [(''isOut'', JNum (Fin 1))]))"
    by (simp add: normalize_eval digits_of_1)
  have n3: "\<not> isOut (normalize_row h (i, [(''isOut'', JStr (units ''false''))]))"
    by (simp add: normalize_eval)
  have n4: "\<not> isOut (normalize_row h (i, [(''isOut'', JBool False)]))"
    by (simp add: normalize_eval)
  have n5: "\<not> isOut (normalize_row h (i, [(''name'', JStr (units ''S1''))]))"
    by (simp add: normalize_eval)
  from general chars e1 e2 e3 e4 e5 e6 e7 n1 n2 n3 n4 n5 show ?thesis by blast
qed

text \<open>
  On \<open>importCsv\<close>, which maps before it filters, the rows kept are exactly those whose
  resolved name is not empty and whose resolved count is finite.
\<close>

lemma importCsv_rows_kept:
  "importCsv_rows h data =
     map (normalize_row h)
       (filter (\<lambda>ir. resolved_name h (snd ir) \<noteq> [] \<and> isFinite (resolved_consumers h (snd ir)))
          (enumerate 0 data))"
  by (simp add: importCsv_rows_def filter_map comp_def normalize_row_def)

lemma importCsv_rows_empty: "importCsv_rows h [] = [] \<and> applyParsedRows_rows h [] = []"
  by (simp add: importCsv_rows_def applyParsedRows_rows_def)

text \<open>
  C3. \<open>applyParsedRows\<close> filters on the raw cells \<open>name\<close> and \<open>consumers\<close> before the
  aliases are resolved and the name is trimmed. A row named through the alias \<open>station\<close>
  (or counted through \<open>consumer_count\<close>) is dropped, although its resolved name is not empty
  and its resolved count is finite, and \<open>importCsv\<close> keeps it; a row whose name is a blank
  is kept, as a station with the empty name, and \<open>importCsv\<close> drops it.
\<close>

theorem applyParsedRows_filters_raw_cells:
  "applyParsedRows_rows h [[(''station'', JStr (units ''S1'')), (''consumers'', JNum (Fin 5))]] = [] \<and>
   map name (importCsv_rows h [[(''station'', JStr (units ''S1'')), (''consumers'', JNum (Fin 5))]])
     = [units ''S1''] \<and>
   applyParsedRows_rows h [[(''name'', JStr (units ''S1'')), (''consumer_count'', JNum (Fin 5))]] = [] \<and>
   map consumers (importCsv_rows h [[(''name'', JStr (units ''S1'')), (''consumer_count'', JNum (Fin 5))]])
     = [Fin 5] \<and>
   map name (applyParsedRows_rows h [[(''name'', JStr (units '' '')), (''consumers'', JNum (Fin 5))]])
     = [[]] \<and>
   importCsv_rows h [[(''name'', JStr (units '' '')), (''consumers'', JNum (Fin 5))]] = []"
proof -
  have a: "applyParsedRows_rows h [[(''station'', JStr (units ''S1'')), (''consumers'', JNum (Fin 5))]] = []"
    by (simp add: applyParsedRows_rows_def field_def)
  have b: "map name (importCsv_rows h [[(''station'', JStr (units ''S1'')), (''consumers'', JNum (Fin 5))]])
      = [units ''S1'']"
    by (simp add: importCsv_rows_def normalize_eval)
  have c: "applyParsedRows_rows h [[(''name'', JStr (units ''S1'')), (''consumer_count'', JNum (Fin 5))]] = []"
    by (simp add: applyParsedRows_rows_def field_def)
  have d: "map consumers (importCsv_rows h [[(''name'', JStr (units ''S1'')), (''consumer_count'', JNum (Fin 5))]])
      = [Fin 5]"
    by (simp add: importCsv_rows_def normalize_eval)
  have e: "map name (applyParsedRows_rows h [[(''name'', JStr (units '' '')), (''consumers'', JNum (Fin 5))]])
      = [[]]"
    by (simp add: applyParsedRows_rows_def normalize_eval)
  have f: "importCsv_rows h [[(''name'', JStr (units '' '')), (''consumers'', JNum (Fin 5))]] = []"
    by (simp add: importCsv_rows_def normalize_eval)
  from a b c d e f show ?thesis by blast
qed

text \<open>
  The loop that fills \<open>initialFeederOut\<close> reads \<open>feeder_isOut\<close> from the normalized objects,
  which do not carry it: every feeder of an imported station starts at false (and a feeder
  named \<open>__proto__\<close> gets no entry).
\<close>

lemma assign_entry_apply:
  "assign_entry F f v k =
     (if k = f \<and> \<not> (f = units ''__proto__'' \<and> F f = None) then Some v else F k)"
  by (auto simp: assign_entry_def)

lemma initialFeederOut_fold:
  "fold (\<lambda>r F. assign_entry F (feeder r) False) rows F0 k
   = (if k \<in> feeder ` set rows \<and> \<not> (k = units ''__proto__'' \<and> F0 k = None)
      then Some False else F0 k)"
proof (induction rows arbitrary: F0)
  case Nil
  show ?case by simp
next
  case (Cons r rows)
  define P where "P = units ''__proto__''"
  have "fold (\<lambda>r F. assign_entry F (feeder r) False) (r # rows) F0 k
      = fold (\<lambda>r F. assign_entry F (feeder r) False) rows (assign_entry F0 (feeder r) False) k"
    by simp
  also have "\<dots> = (if k \<in> feeder ` set rows \<and>
        \<not> (k = units ''__proto__'' \<and> assign_entry F0 (feeder r) False k = None)
      then Some False else assign_entry F0 (feeder r) False k)"
    by (rule Cons.IH)
  also have "\<dots> = (if k \<in> feeder ` set (r # rows) \<and> \<not> (k = units ''__proto__'' \<and> F0 k = None)
      then Some False else F0 k)"
    unfolding assign_entry_apply P_def [symmetric]
    by (cases "k = feeder r"; cases "k = P"; cases "F0 k"; cases "k \<in> feeder ` set rows") simp_all
  finally show ?case .
qed

lemma initialFeederOut_all_false:
  "initialFeederOut h rows k =
     (if k \<in> feeder ` set rows \<and> k \<noteq> units ''__proto__'' then Some False else None)"
proof -
  have step: "(\<lambda>r F. assign_entry F (feeder r)
      (startsWith (toLowerCase h
         (to_String h (coalesce (feeder_isOut r) (JStr (units ''false''))))) (units ''t'')))
     = (\<lambda>r F. assign_entry F (feeder r) False)"
    by (simp add: feeder_isOut_def coalesce_def nullish_def toLowerCase_def lower_unit_def units_def)
  show ?thesis
    by (simp add: initialFeederOut_def step initialFeederOut_fold)
qed

text \<open>
  C6. The import does not initialize the override map from the column \<open>feeder_isOut\<close>: a
  row whose \<open>feeder_isOut\<close> is true (or \<open>"true"\<close>) leaves its feeder at false, and no import
  ever sets an entry to true.
\<close>

theorem feeder_isOut_column_is_ignored:
  "feederOut (applyParsedRows h
      [[(''feeder'', JStr (units ''F1'')), (''name'', JStr (units ''S1'')),
        (''consumers'', JNum (Fin 10)), (''feeder_isOut'', JBool True)]] d) (units ''F1'')
     = Some False \<and>
   feederOut (importCsv h
      [[(''feeder'', JStr (units ''F1'')), (''name'', JStr (units ''S1'')),
        (''consumers'', JNum (Fin 10)), (''feeder_isOut'', JStr (units ''true''))]] d) (units ''F1'')
     = Some False \<and>
   feederOut (applyParsedRows h parsed d) k \<noteq> Some True \<and>
   feederOut (importCsv h data d) k \<noteq> Some True"
proof -
  have a: "feeder ` set (applyParsedRows_rows h
      [[(''feeder'', JStr (units ''F1'')), (''name'', JStr (units ''S1'')),
        (''consumers'', JNum (Fin 10)), (''feeder_isOut'', JBool True)]]) = {units ''F1''}"
    by (simp add: applyParsedRows_rows_def normalize_eval)
  have b: "feeder ` set (importCsv_rows h
      [[(''feeder'', JStr (units ''F1'')), (''name'', JStr (units ''S1'')),
        (''consumers'', JNum (Fin 10)), (''feeder_isOut'', JStr (units ''true''))]]) = {units ''F1''}"
    by (simp add: importCsv_rows_def normalize_eval)
  have c: "units ''F1'' \<noteq> units ''__proto__''"
    by (simp add: units_def)
  show ?thesis
    by (simp add: applyParsedRows_def importCsv_def initialFeederOut_all_false a b c)
qed


section \<open>Properties of the aggregation engine\<close>

subsection \<open>The loop in closed form\<close>

lemma first_keys_snoc:
  "first_keys (sts @ [s]) =
     (if feeder_key s \<in> set (first_keys sts) then first_keys sts
      else first_keys sts @ [feeder_key s])"
  by (simp add: first_keys_def)

lemma set_first_keys: "set (first_keys sts) = feeder_key ` set sts"
  by (simp add: first_keys_def)

lemma distinct_first_keys: "distinct (first_keys sts)"
  by (simp add: first_keys_def)

lemma g_name_group_of [simp]: "g_name (group_of F sts k) = k"
  by (simp add: group_of_def)

lemma group_of_no_member:
  assumes "f \<notin> feeder_key ` set sts"
  shows "group_of F sts f = new_group f"
proof -
  from assms have "filter (\<lambda>s. feeder_key s = f) sts = []"
    by (auto simp: filter_empty_conv)
  then show ?thesis by (simp add: group_of_def new_group_def)
qed

lemma group_of_snoc:
  "group_of F (sts @ [s]) k =
     (if k = feeder_key s
      then (group_of F sts k)
             \<lparr> g_stations := g_stations (group_of F sts k) @ [with_effOut s (eff_of F s)],
               g_total := jadd (g_total (group_of F sts k)) (cons_of s),
               g_affected := (if eff_of F s then jadd (g_affected (group_of F sts k)) (cons_of s)
                              else g_affected (group_of F sts k)) \<rparr>
      else group_of F sts k)"
  by (simp add: group_of_def)

lemma agg_step_closed:
  "agg_step F s (map (group_of F sts) (first_keys sts), t, a) =
     (map (group_of F (sts @ [s])) (first_keys (sts @ [s])),
      jadd t (cons_of s),
      if eff_of F s then jadd a (cons_of s) else a)"
proof (cases "feeder_key s \<in> feeder_key ` set sts")
  case True
  then show ?thesis
    by (simp add: agg_step_def Let_def first_keys_snoc set_first_keys group_of_snoc
        eff_of_def cons_of_def image_image)
next
  case False
  then show ?thesis
    using group_of_no_member [OF False, of F, symmetric]
    by (simp add: agg_step_def Let_def first_keys_snoc set_first_keys group_of_snoc
        eff_of_def cons_of_def image_image)
qed

lemma agg_fold_closed:
  "fold (agg_step F) sts ([], Fin 0, Fin 0) =
     (map (group_of F sts) (first_keys sts),
      running_sum (map cons_of sts),
      running_sum (map cons_of (filter (eff_of F) sts)))"
proof (induction sts rule: rev_induct)
  case Nil
  show ?case by (simp add: first_keys_def)
next
  case (snoc s sts)
  have "fold (agg_step F) (sts @ [s]) ([], Fin 0, Fin 0) =
        agg_step F s (fold (agg_step F) sts ([], Fin 0, Fin 0))"
    by simp
  also have "\<dots> = (map (group_of F (sts @ [s])) (first_keys (sts @ [s])),
      jadd (running_sum (map cons_of sts)) (cons_of s),
      if eff_of F s then jadd (running_sum (map cons_of (filter (eff_of F) sts))) (cons_of s)
      else running_sum (map cons_of (filter (eff_of F) sts)))"
    by (simp only: snoc.IH agg_step_closed)
  finally show ?case by simp
qed

lemma set_js_insort: "set (js_insort cmp x ys) = insert x (set ys)"
  by (induction ys) auto

lemma set_js_sort: "set (js_sort cmp xs) = set xs"
  by (induction xs) (simp_all add: js_sort_def set_js_insort)

lemma length_js_insort: "length (js_insort cmp x ys) = Suc (length ys)"
  by (induction ys) auto

lemma length_js_sort: "length (js_sort cmp xs) = length xs"
  by (induction xs) (simp_all add: js_sort_def length_js_insort)

lemma totals_aggregate:
  "totals (aggregate cmp sts F) =
     \<lparr> total = running_sum (map cons_of sts),
       affected = running_sum (map cons_of (filter (eff_of F) sts)),
       healthy = jsub (running_sum (map cons_of sts))
                   (running_sum (map cons_of (filter (eff_of F) sts))),
       pct = pct_of (running_sum (map cons_of sts))
               (running_sum (map cons_of (filter (eff_of F) sts))) \<rparr>"
  by (simp add: aggregate_def agg_fold_closed)

lemma feeders_aggregate:
  "feeders (aggregate cmp sts F) =
     js_sort (\<lambda>a b. cmp (g_name a) (g_name b))
       (map (\<lambda>f. (group_of F sts f)
               \<lparr> g_healthy := jsub (g_total (group_of F sts f)) (g_affected (group_of F sts f)) \<rparr>)
          (first_keys sts))"
  by (simp add: aggregate_def agg_fold_closed comp_def)

lemma in_feeders_aggregate:
  "g \<in> set (feeders (aggregate cmp sts F)) \<longleftrightarrow>
     (\<exists>f \<in> feeder_key ` set sts.
        g = (group_of F sts f)
              \<lparr> g_healthy := jsub (g_total (group_of F sts f)) (g_affected (group_of F sts f)) \<rparr>)"
  by (auto simp: feeders_aggregate set_js_sort set_first_keys)

lemma truncate_with_effOut [simp]: "station.truncate (with_effOut s e) = s"
  by (simp add: with_effOut_def station.truncate_def)

lemma with_effOut_fields [simp]:
  "effOut (with_effOut s e) = e" "isOut (with_effOut s e) = isOut s"
  "feeder_key (with_effOut s e) = feeder_key s" "cons_of (with_effOut s e) = cons_of s"
  by (simp_all add: with_effOut_def feeder_key_def cons_of_def)

lemma filter_effOut_with:
  "filter effOut (map (\<lambda>s. with_effOut s (eff_of F s)) xs) =
   map (\<lambda>s. with_effOut s (eff_of F s)) (filter (eff_of F) xs)"
  by (induction xs) simp_all

text \<open>
  Without any assumption on the counts: the sums are the running sums of the loop, in
  double precision, and \<open>healthy\<close> is the rounded difference.
\<close>

lemma aggregate_running_sums:
  "total (totals (aggregate cmp sts F)) = running_sum (map cons_of sts) \<and>
   affected (totals (aggregate cmp sts F)) = running_sum (map cons_of (filter (eff_of F) sts)) \<and>
   healthy (totals (aggregate cmp sts F)) =
     jsub (total (totals (aggregate cmp sts F))) (affected (totals (aggregate cmp sts F)))"
  by (simp add: totals_aggregate)

lemma group_running_sums:
  assumes "g \<in> set (feeders (aggregate cmp sts F))"
  shows "map station.truncate (g_stations g) = filter (\<lambda>s. feeder_key s = g_name g) sts \<and>
         g_total g = running_sum (map cons_of (g_stations g)) \<and>
         g_affected g = running_sum (map cons_of (filter effOut (g_stations g))) \<and>
         g_healthy g = jsub (g_total g) (g_affected g)"
proof -
  from assms obtain f where
    g: "g = (group_of F sts f)
            \<lparr> g_healthy := jsub (g_total (group_of F sts f)) (g_affected (group_of F sts f)) \<rparr>"
    by (auto simp: in_feeders_aggregate)
  show ?thesis
    by (simp add: g group_of_def comp_def filter_effOut_with)
qed

subsection \<open>Sums of whole counts\<close>

lemma whole_Fin: "whole c \<Longrightarrow> Fin (of_int (whole_of c)) = c"
  by (cases c) (simp_all add: whole_def whole_of_def)

lemma sum_abs_filter_map:
  "sum_list (map (\<lambda>s. \<bar>f s\<bar>) (filter P xs)) \<le> sum_list (map (\<lambda>s. \<bar>f s\<bar>) xs)"
  for f :: "'a \<Rightarrow> int"
  by (induction xs) auto

lemma sum_list_split:
  "sum_list (map f xs) - sum_list (map f (filter P xs)) = sum_list (map f (filter (\<lambda>x. \<not> P x) xs))"
  for f :: "'a \<Rightarrow> int"
  by (induction xs) auto

lemma abs_sum_le: "\<bar>sum_list (map f xs)\<bar> \<le> sum_list (map (\<lambda>s. \<bar>f s\<bar>) xs)"
  for f :: "'a \<Rightarrow> int"
  by (induction xs) auto

lemma whole_sums:
  fixes xs :: "'a station_scheme list"
  assumes w: "\<forall>s \<in> set xs. whole (cons_of s)"
    and b: "sum_list (map (\<lambda>s. \<bar>whole_of (cons_of s)\<bar>) xs) < 2 ^ 53"
  shows "running_sum (map cons_of xs) = Fin (of_int (sum_list (map (\<lambda>s. whole_of (cons_of s)) xs)))"
proof -
  from w have eq: "map cons_of xs = map (\<lambda>n. Fin (of_int n)) (map (\<lambda>s. whole_of (cons_of s)) xs)"
    by (induction xs) (simp_all add: whole_Fin)
  from b have bb: "sum_list (map abs (map (\<lambda>s. whole_of (cons_of s)) xs)) < 2 ^ 53"
    by (simp add: comp_def)
  show ?thesis
    by (simp only: eq running_sum_whole [OF bb])
qed

lemma whole_partition:
  fixes xs :: "'a station_scheme list"
  assumes w: "\<forall>s \<in> set xs. whole (cons_of s)"
    and b: "sum_list (map (\<lambda>s. \<bar>whole_of (cons_of s)\<bar>) xs) < 2 ^ 53"
  shows "running_sum (map cons_of xs) = Fin (of_int (sum_list (map (\<lambda>s. whole_of (cons_of s)) xs)))"
    and "running_sum (map cons_of (filter P xs))
           = Fin (of_int (sum_list (map (\<lambda>s. whole_of (cons_of s)) (filter P xs))))"
    and "jsub (running_sum (map cons_of xs)) (running_sum (map cons_of (filter P xs)))
           = Fin (of_int (sum_list (map (\<lambda>s. whole_of (cons_of s)) xs)
                          - sum_list (map (\<lambda>s. whole_of (cons_of s)) (filter P xs))))"
    and "jadd (running_sum (map cons_of (filter P xs)))
           (jsub (running_sum (map cons_of xs)) (running_sum (map cons_of (filter P xs))))
           = running_sum (map cons_of xs)"
proof -
  let ?w = "\<lambda>s :: 'a station_scheme. whole_of (cons_of s)"
  let ?T = "sum_list (map ?w xs)"
  let ?A = "sum_list (map ?w (filter P xs))"
  show t: "running_sum (map cons_of xs) = Fin (of_int ?T)"
    by (rule whole_sums [OF w b])
  have bP: "sum_list (map (\<lambda>s. \<bar>?w s\<bar>) (filter Q xs)) < 2 ^ 53" for Q
    using sum_abs_filter_map [of ?w Q xs] b by simp
  from w have wP: "\<forall>s \<in> set (filter P xs). whole (cons_of s)" by simp
  show a: "running_sum (map cons_of (filter P xs)) = Fin (of_int ?A)"
    by (rule whole_sums [OF wP bP])
  have "\<bar>?T - ?A\<bar> = \<bar>sum_list (map ?w (filter (\<lambda>x. \<not> P x) xs))\<bar>"
    by (simp only: sum_list_split)
  also have "\<dots> \<le> sum_list (map (\<lambda>s. \<bar>?w s\<bar>) (filter (\<lambda>x. \<not> P x) xs))"
    by (rule abs_sum_le)
  also have "\<dots> < 2 ^ 53" by (rule bP)
  finally have d: "\<bar>?T - ?A\<bar> < 2 ^ 53" .
  show h: "jsub (running_sum (map cons_of xs)) (running_sum (map cons_of (filter P xs)))
      = Fin (of_int (?T - ?A))"
    unfolding t a by (rule jsub_whole [OF d])
  have "\<bar>?T\<bar> \<le> sum_list (map (\<lambda>s. \<bar>?w s\<bar>) xs)" by (rule abs_sum_le)
  with b have "\<bar>?A + (?T - ?A)\<bar> < 2 ^ 53" by simp
  from jadd_whole [OF this]
  show "jadd (running_sum (map cons_of (filter P xs)))
           (jsub (running_sum (map cons_of xs)) (running_sum (map cons_of (filter P xs))))
           = running_sum (map cons_of xs)"
    unfolding h unfolding t a by simp
qed


lemmas example_eval =
  example_stations_def mk_station_def mk_dashboard_def first_keys_def group_of_def
  feeder_key_def eff_of_def feeder_off_def cons_of_def js_sort_def with_effOut_def
  units_def Object_prototype_names_def number_or_zero_def

text \<open>
  C2 as stated fails when the counts are not whole numbers: the sums are taken in double
  precision. Three stations of one feeder with the counts 0.1 (out), 1 and 0.3 (out) have
  the total 1.4000000000000001, affected 0.4 and healthy 1, and affected + healthy is not
  the total, neither in double precision (1.4) nor exactly.
\<close>

theorem aggregate_sums_counterexample:
  "total (totals (aggregate compare_codes
      [mk_station ''1'' ''F1'' ''A'' (3602879701896397 / 36028797018963968) True, mk_station ''2'' ''F1'' ''B'' 1 False,
       mk_station ''3'' ''F1'' ''C'' (5404319552844595 / 18014398509481984) True] Map.empty)) = Fin (6305039478318695 / 4503599627370496) \<and>
   affected (totals (aggregate compare_codes
      [mk_station ''1'' ''F1'' ''A'' (3602879701896397 / 36028797018963968) True, mk_station ''2'' ''F1'' ''B'' 1 False,
       mk_station ''3'' ''F1'' ''C'' (5404319552844595 / 18014398509481984) True] Map.empty)) = Fin (3602879701896397 / 9007199254740992) \<and>
   healthy (totals (aggregate compare_codes
      [mk_station ''1'' ''F1'' ''A'' (3602879701896397 / 36028797018963968) True, mk_station ''2'' ''F1'' ''B'' 1 False,
       mk_station ''3'' ''F1'' ''C'' (5404319552844595 / 18014398509481984) True] Map.empty)) = Fin 1 \<and>
   jadd (Fin (3602879701896397 / 9007199254740992)) (Fin 1) = Fin (3152519739159347 / 2251799813685248) \<and>
   Fin (3152519739159347 / 2251799813685248) \<noteq> Fin (6305039478318695 / 4503599627370496) \<and>
   (3602879701896397 / 9007199254740992) + 1 \<noteq> ((6305039478318695 / 4503599627370496) :: rat)"
proof -
  have "dbl (3602879701896397 / 36028797018963968) = Fin (of_int 7205759403792794 / 2 ^ 56)"
    by (rule dbl_near) simp_all
  then have a1: "jadd (Fin 0) (Fin (3602879701896397 / 36028797018963968)) = Fin (3602879701896397 / 36028797018963968)"
    by (simp add: dbl_minus)
  have "dbl (39631676720860365 / 36028797018963968) = Fin (of_int 4953959590107546 / 2 ^ 52)"
    by (rule dbl_near) simp_all
  then have a2: "jadd (Fin (3602879701896397 / 36028797018963968)) (Fin 1) = Fin (2476979795053773 / 2251799813685248)"
    by (simp add: dbl_minus)
  have "dbl (25220157913274779 / 18014398509481984) = Fin (of_int 6305039478318695 / 2 ^ 52)"
    by (rule dbl_near) simp_all
  then have a3: "jadd (Fin (2476979795053773 / 2251799813685248)) (Fin (5404319552844595 / 18014398509481984)) = Fin (6305039478318695 / 4503599627370496)"
    by (simp add: dbl_minus)
  have "dbl (14411518807585587 / 36028797018963968) = Fin (of_int 7205759403792794 / 2 ^ 54)"
    by (rule dbl_tie [where f = 7205759403792793]) simp_all
  then have a4: "jadd (Fin (3602879701896397 / 36028797018963968)) (Fin (5404319552844595 / 18014398509481984)) = Fin (3602879701896397 / 9007199254740992)"
    by (simp add: dbl_minus)
  have "dbl (9007199254740993 / 9007199254740992) = Fin (of_int 4503599627370496 / 2 ^ 52)"
    by (rule dbl_tie [where f = 4503599627370496]) simp_all
  then have a5: "jsub (Fin (6305039478318695 / 4503599627370496)) (Fin (3602879701896397 / 9007199254740992)) = Fin 1"
    by (simp add: dbl_minus jsub_def)
  have "dbl (12610078956637389 / 9007199254740992) = Fin (of_int 6305039478318694 / 2 ^ 52)"
    by (rule dbl_tie [where f = 6305039478318694]) simp_all
  then have a6: "jadd (Fin (3602879701896397 / 9007199254740992)) (Fin 1) = Fin (3152519739159347 / 2251799813685248)"
    by (simp add: dbl_minus)
  have t: "totals (aggregate compare_codes
      [mk_station ''1'' ''F1'' ''A'' (3602879701896397 / 36028797018963968) True, mk_station ''2'' ''F1'' ''B'' 1 False,
       mk_station ''3'' ''F1'' ''C'' (5404319552844595 / 18014398509481984) True] Map.empty)
     = \<lparr> total = Fin (6305039478318695 / 4503599627370496), affected = Fin (3602879701896397 / 9007199254740992), healthy = Fin 1,
         pct = pct_of (Fin (6305039478318695 / 4503599627370496)) (Fin (3602879701896397 / 9007199254740992)) \<rparr>"
    by (simp add: totals_aggregate example_eval running_sum_def a1 a2 a3 a4 a5
        del: jadd.simps)
  show ?thesis
    by (simp add: t a6 del: jadd.simps)
qed

text \<open>
  C2, amended. When every count (after \<open>Number(s.consumers) || 0\<close>) is a whole number and
  the absolute values of the counts sum to less than \<open>2^53\<close>, no addition rounds: the totals
  are the exact sums, \<open>healthy\<close> is exactly \<open>total - affected\<close>, and
  \<open>affected + healthy = total\<close>. Every feeder group of the output holds, in input order,
  the stations whose feeder key is its name; its \<open>total\<close> is the exact sum of their counts,
  its \<open>affected\<close> the exact sum over those that are effectively out, its \<open>healthy\<close> the
  difference, and \<open>affected + healthy = total\<close>.
\<close>

theorem aggregate_sums:
  assumes "\<forall>s \<in> set sts. whole (cons_of s)"
    and "sum_list (map (\<lambda>s. \<bar>whole_of (cons_of s)\<bar>) sts) < 2 ^ 53"
  shows
  "jadd (affected (totals (aggregate cmp sts F))) (healthy (totals (aggregate cmp sts F)))
     = total (totals (aggregate cmp sts F)) \<and>
   total (totals (aggregate cmp sts F))
     = Fin (of_int (sum_list (map (\<lambda>s. whole_of (cons_of s)) sts))) \<and>
   affected (totals (aggregate cmp sts F))
     = Fin (of_int (sum_list (map (\<lambda>s. whole_of (cons_of s)) (filter (eff_of F) sts)))) \<and>
   healthy (totals (aggregate cmp sts F))
     = Fin (of_int (sum_list (map (\<lambda>s. whole_of (cons_of s)) sts)
                    - sum_list (map (\<lambda>s. whole_of (cons_of s)) (filter (eff_of F) sts)))) \<and>
   (\<forall>g \<in> set (feeders (aggregate cmp sts F)).
      map station.truncate (g_stations g) = filter (\<lambda>s. feeder_key s = g_name g) sts \<and>
      g_total g = Fin (of_int (sum_list (map (\<lambda>e. whole_of (cons_of e)) (g_stations g)))) \<and>
      g_affected g
        = Fin (of_int (sum_list (map (\<lambda>e. whole_of (cons_of e)) (filter effOut (g_stations g))))) \<and>
      g_healthy g
        = Fin (of_int (sum_list (map (\<lambda>e. whole_of (cons_of e)) (g_stations g))
                       - sum_list (map (\<lambda>e. whole_of (cons_of e)) (filter effOut (g_stations g))))) \<and>
      jadd (g_affected g) (g_healthy g) = g_total g)"
proof -
  let ?A = "aggregate cmp sts F"
  note p = whole_partition [OF assms]
  have tot: "jadd (affected (totals ?A)) (healthy (totals ?A)) = total (totals ?A)"
    by (simp only: totals_aggregate totals_rec.simps p(4))
  have t: "total (totals ?A) = Fin (of_int (sum_list (map (\<lambda>s. whole_of (cons_of s)) sts)))"
    by (simp only: totals_aggregate totals_rec.simps p(1))
  have a: "affected (totals ?A)
      = Fin (of_int (sum_list (map (\<lambda>s. whole_of (cons_of s)) (filter (eff_of F) sts))))"
    by (simp only: totals_aggregate totals_rec.simps p(2))
  have h: "healthy (totals ?A)
      = Fin (of_int (sum_list (map (\<lambda>s. whole_of (cons_of s)) sts)
                    - sum_list (map (\<lambda>s. whole_of (cons_of s)) (filter (eff_of F) sts))))"
    by (simp only: totals_aggregate totals_rec.simps p(3))
  have grp: "map station.truncate (g_stations g) = filter (\<lambda>s. feeder_key s = g_name g) sts \<and>
      g_total g = Fin (of_int (sum_list (map (\<lambda>e. whole_of (cons_of e)) (g_stations g)))) \<and>
      g_affected g
        = Fin (of_int (sum_list (map (\<lambda>e. whole_of (cons_of e)) (filter effOut (g_stations g))))) \<and>
      g_healthy g
        = Fin (of_int (sum_list (map (\<lambda>e. whole_of (cons_of e)) (g_stations g))
                       - sum_list (map (\<lambda>e. whole_of (cons_of e)) (filter effOut (g_stations g))))) \<and>
      jadd (g_affected g) (g_healthy g) = g_total g"
    if "g \<in> set (feeders ?A)" for g
  proof -
    from that obtain f where
      g: "g = (group_of F sts f)
              \<lparr> g_healthy := jsub (g_total (group_of F sts f)) (g_affected (group_of F sts f)) \<rparr>"
      by (auto simp: in_feeders_aggregate)
    let ?ys = "filter (\<lambda>s. feeder_key s = f) sts"
    from assms(1) have w: "\<forall>s \<in> set ?ys. whole (cons_of s)" by simp
    have b: "sum_list (map (\<lambda>s. \<bar>whole_of (cons_of s)\<bar>) ?ys) < 2 ^ 53"
      using sum_abs_filter_map [of "\<lambda>s. whole_of (cons_of s)" "\<lambda>s. feeder_key s = f" sts] assms(2)
      by simp
    note q = whole_partition [OF w b]
    have m: "map station.truncate (g_stations g) = filter (\<lambda>s. feeder_key s = g_name g) sts"
      by (simp add: g group_of_def comp_def)
    have s1: "sum_list (map (\<lambda>e. whole_of (cons_of e)) (g_stations g))
        = sum_list (map (\<lambda>s. whole_of (cons_of s)) ?ys)"
      by (simp add: g group_of_def comp_def)
    have s2: "sum_list (map (\<lambda>e. whole_of (cons_of e)) (filter effOut (g_stations g)))
        = sum_list (map (\<lambda>s. whole_of (cons_of s)) (filter (eff_of F) ?ys))"
      by (simp add: g group_of_def comp_def filter_effOut_with)
    have gt: "g_total g = running_sum (map cons_of ?ys)"
      by (simp add: g group_of_def)
    have ga: "g_affected g = running_sum (map cons_of (filter (eff_of F) ?ys))"
      by (simp add: g group_of_def)
    have gh: "g_healthy g = jsub (running_sum (map cons_of ?ys))
        (running_sum (map cons_of (filter (eff_of F) ?ys)))"
      by (simp add: g group_of_def)
    show ?thesis
      unfolding s1 s2 gt ga gh using m q by simp
  qed
  from tot t a h grp show ?thesis by blast
qed

lemma example_feeders:
  "map g_name (feeders (aggregate compare_codes example_stations [units ''F2'' \<mapsto> True]))
     = [units ''F1'', units ''F2''] \<and>
   map g_total (feeders (aggregate compare_codes example_stations [units ''F2'' \<mapsto> True]))
     = [Fin 100, Fin 100] \<and>
   map g_affected (feeders (aggregate compare_codes example_stations [units ''F2'' \<mapsto> True]))
     = [Fin 40, Fin 100] \<and>
   map g_healthy (feeders (aggregate compare_codes example_stations [units ''F2'' \<mapsto> True]))
     = [Fin 60, Fin 0]"
  by (simp add: feeders_aggregate example_eval running_sum_def jsub_def)

lemma example_totals:
  "total (totals (aggregate compare_codes example_stations [units ''F2'' \<mapsto> True])) = Fin 200 \<and>
   affected (totals (aggregate compare_codes example_stations [units ''F2'' \<mapsto> True])) = Fin 140 \<and>
   healthy (totals (aggregate compare_codes example_stations [units ''F2'' \<mapsto> True])) = Fin 60"
  by (simp add: totals_aggregate example_eval running_sum_def jsub_def)

lemma example_whole:
  "list_all (\<lambda>s. whole (cons_of s)) example_stations \<and>
   sum_list (map (\<lambda>s. \<bar>whole_of (cons_of s)\<bar>) example_stations) = 200"
  by (simp add: example_eval whole_def whole_of_def)

theorem aggregate_sums_witness:
  "list_all (\<lambda>s. whole (cons_of s)) example_stations \<and>
   sum_list (map (\<lambda>s. \<bar>whole_of (cons_of s)\<bar>) example_stations) = 200 \<and>
   g_name (hd (feeders (aggregate compare_codes example_stations [units ''F2'' \<mapsto> True])))
     = units ''F1'' \<and>
   g_total (hd (feeders (aggregate compare_codes example_stations [units ''F2'' \<mapsto> True])))
     = Fin 100 \<and>
   jadd (g_affected (hd (feeders (aggregate compare_codes example_stations [units ''F2'' \<mapsto> True]))))
        (g_healthy (hd (feeders (aggregate compare_codes example_stations [units ''F2'' \<mapsto> True]))))
     = g_total (hd (feeders (aggregate compare_codes example_stations [units ''F2'' \<mapsto> True]))) \<and>
   total (totals (aggregate compare_codes example_stations [units ''F2'' \<mapsto> True])) = Fin 200 \<and>
   affected (totals (aggregate compare_codes example_stations [units ''F2'' \<mapsto> True])) = Fin 140 \<and>
   jadd (affected (totals (aggregate compare_codes example_stations [units ''F2'' \<mapsto> True])))
        (healthy (totals (aggregate compare_codes example_stations [units ''F2'' \<mapsto> True])))
     = total (totals (aggregate compare_codes example_stations [units ''F2'' \<mapsto> True]))"
proof -
  let ?A = "aggregate compare_codes example_stations [units ''F2'' \<mapsto> True]"
  have w: "\<forall>s \<in> set example_stations. whole (cons_of s)"
    using example_whole by (simp add: list_all_iff)
  have b: "sum_list (map (\<lambda>s. \<bar>whole_of (cons_of s)\<bar>) example_stations) < 2 ^ 53"
    using example_whole by simp
  have ne: "feeders ?A \<noteq> []"
    using example_feeders by auto
  then have mem: "hd (feeders ?A) \<in> set (feeders ?A)" by simp
  have nm: "g_name (hd (feeders ?A)) = units ''F1''"
    using example_feeders ne by (simp add: hd_map [symmetric])
  have tt: "g_total (hd (feeders ?A)) = Fin 100"
    using example_feeders ne by (simp add: hd_map [symmetric])
  from aggregate_sums [OF w b, of compare_codes "[units ''F2'' \<mapsto> True]"] mem
  have "jadd (g_affected (hd (feeders ?A))) (g_healthy (hd (feeders ?A))) = g_total (hd (feeders ?A))"
    and "jadd (affected (totals ?A)) (healthy (totals ?A)) = total (totals ?A)"
    by blast+
  with nm tt example_totals example_whole show ?thesis by simp
qed

subsection \<open>Effective outage and the feeder toggle\<close>






text \<open>
  A blank feeder cell, in the dashboard whose \<open>importCsv\<close> parses every cell as a string,
  gives a station with the empty feeder; the group it is shown in, and toggled by, is
  \<open>"Unassigned"\<close>.
\<close>

lemma blank_feeder_state:
  assumes "Number_of_string h (units ''10'') = Fin 10"
  shows "stations (toggleFeeder (units ''Unassigned'')
           (importCsv h [[(''id'', JStr (units ''1'')), (''feeder'', JStr []),
              (''name'', JStr (units ''S1'')), (''consumers'', JStr (units ''10''))]] d))
         = [mk_station ''1'' [] ''S1'' 10 False] \<and>
         feederOut (toggleFeeder (units ''Unassigned'')
           (importCsv h [[(''id'', JStr (units ''1'')), (''feeder'', JStr []),
              (''name'', JStr (units ''S1'')), (''consumers'', JStr (units ''10''))]] d))
         = [[] \<mapsto> False, units ''Unassigned'' \<mapsto> True]"
proof -
  have rows: "importCsv_rows h [[(''id'', JStr (units ''1'')), (''feeder'', JStr []),
       (''name'', JStr (units ''S1'')), (''consumers'', JStr (units ''10''))]]
     = [mk_station ''1'' [] ''S1'' 10 False]"
    using assms by (simp add: importCsv_rows_def normalize_eval mk_station_def)
  have init: "initialFeederOut h [mk_station ''1'' [] ''S1'' 10 False] = [[] \<mapsto> False]"
    by (rule ext) (simp add: initialFeederOut_all_false mk_station_def units_def)
  have un: "units ''Unassigned'' \<notin> set Object_prototype_names" "units ''Unassigned'' \<noteq> []"
    by (simp_all add: Object_prototype_names_def units_def)
  show ?thesis
    by (simp add: toggleFeeder_def importCsv_def rows init feeder_off_def un)
qed

text \<open>
  The lookup \<open>feederOut[f]\<close> goes through the prototype of the map: a feeder named
  \<open>__proto__\<close> or \<open>constructor\<close> has no entry after an import and reads as out.
\<close>

lemma inherited_names_read_out:
  "feederOut (importCsv h data d) (units ''__proto__'') = None \<and>
   feeder_off (feederOut (importCsv h data d)) (units ''__proto__'') \<and>
   feeder_off Map.empty (units ''constructor'') \<and>
   \<not> feeder_off Map.empty (units ''F1'')"
  by (simp add: importCsv_def initialFeederOut_all_false feeder_off_def
      Object_prototype_names_def units_def)





subsection \<open>The percentage\<close>

lemma pct_1_of_3: "pct_of (Fin 3) (Fin 1) = dbl (333 / 10)"
proof -
  have "dbl (1 / 3) = Fin (of_int 6004799503160661 / 2 ^ 54)"
    by (rule dbl_near) simp_all
  then have q1: "jdiv (Fin 1) (Fin 3) = Fin (6004799503160661 / 18014398509481984)"
    by (simp add: dbl_minus)
  have "dbl (150119987579016525 / 4503599627370496) = Fin (of_int 4691249611844266 / 2 ^ 47)"
    by (rule dbl_near) simp_all
  then have q2: "jmul (Fin (6004799503160661 / 18014398509481984)) (Fin 100) = Fin (2345624805922133 / 70368744177664)"
    by (simp add: dbl_minus)
  have "dbl (11728124029610665 / 35184372088832) = Fin (of_int 5864062014805332 / 2 ^ 44)"
    by (rule dbl_tie [where f = 5864062014805332]) simp_all
  then have q3: "jmul (Fin (2345624805922133 / 70368744177664)) (Fin 10) = Fin (1466015503701333 / 4398046511104)"
    by (simp add: dbl_minus)
  have q4: "Math_round (Fin (1466015503701333 / 4398046511104)) = Fin 333"
    by (simp add: floor_eq_iff)
  have "pct_of (Fin 3) (Fin 1) = jdiv (Fin 333) (Fin 10)"
    by (simp add: pct_of_def q1 q2 q3 q4 del: jdiv.simps jmul.simps Math_round.simps)
  then show ?thesis by (simp add: dbl_minus)
qed

lemma pct_2_of_3: "pct_of (Fin 3) (Fin 2) = dbl (667 / 10)"
proof -
  have "dbl (2 / 3) = Fin (of_int 6004799503160661 / 2 ^ 53)"
    by (rule dbl_near) simp_all
  then have q1: "jdiv (Fin 2) (Fin 3) = Fin (6004799503160661 / 9007199254740992)"
    by (simp add: dbl_minus)
  have "dbl (150119987579016525 / 2251799813685248) = Fin (of_int 4691249611844266 / 2 ^ 46)"
    by (rule dbl_near) simp_all
  then have q2: "jmul (Fin (6004799503160661 / 9007199254740992)) (Fin 100) = Fin (2345624805922133 / 35184372088832)"
    by (simp add: dbl_minus)
  have "dbl (11728124029610665 / 17592186044416) = Fin (of_int 5864062014805332 / 2 ^ 43)"
    by (rule dbl_tie [where f = 5864062014805332]) simp_all
  then have q3: "jmul (Fin (2345624805922133 / 35184372088832)) (Fin 10) = Fin (1466015503701333 / 2199023255552)"
    by (simp add: dbl_minus)
  have q4: "Math_round (Fin (1466015503701333 / 2199023255552)) = Fin 667"
    by (simp add: floor_eq_iff)
  have "pct_of (Fin 3) (Fin 2) = jdiv (Fin 667) (Fin 10)"
    by (simp add: pct_of_def q1 q2 q3 q4 del: jdiv.simps jmul.simps Math_round.simps)
  then show ?thesis by (simp add: dbl_minus)
qed

lemma pct_23_of_80: "pct_of (Fin 80) (Fin 23) = dbl (287 / 10)"
proof -
  have "dbl (23 / 80) = Fin (of_int 5179139571476070 / 2 ^ 54)"
    by (rule dbl_near) simp_all
  then have q1: "jdiv (Fin 23) (Fin 80) = Fin (2589569785738035 / 9007199254740992)"
    by (simp add: dbl_minus)
  have "dbl (64739244643450875 / 2251799813685248) = Fin (of_int 8092405580431359 / 2 ^ 48)"
    by (rule dbl_near) simp_all
  then have q2: "jmul (Fin (2589569785738035 / 9007199254740992)) (Fin 100) = Fin (8092405580431359 / 281474976710656)"
    by (simp add: dbl_minus)
  have "dbl (40462027902156795 / 140737488355328) = Fin (of_int 5057753487769599 / 2 ^ 44)"
    by (rule dbl_near) simp_all
  then have q3: "jmul (Fin (8092405580431359 / 281474976710656)) (Fin 10) = Fin (5057753487769599 / 17592186044416)"
    by (simp add: dbl_minus)
  have q4: "Math_round (Fin (5057753487769599 / 17592186044416)) = Fin 287"
    by (simp add: floor_eq_iff)
  have "pct_of (Fin 80) (Fin 23) = jdiv (Fin 287) (Fin 10)"
    by (simp add: pct_of_def q1 q2 q3 q4 del: jdiv.simps jmul.simps Math_round.simps)
  then show ?thesis by (simp add: dbl_minus)
qed

lemma pct_minus_1_of_16: "pct_of (Fin 16) (Fin (- 1)) = dbl (- (31 / 5))"
proof -
  have "dbl (1 / 16) = Fin (of_int 4503599627370496 / 2 ^ 56)"
    by (rule dbl_near) simp_all
  then have q1: "jdiv (Fin (- 1)) (Fin 16) = Fin (- (1 / 16))"
    by (simp add: dbl_minus)
  have "dbl (25 / 4) = Fin (of_int 7036874417766400 / 2 ^ 50)"
    by (rule dbl_near) simp_all
  then have q2: "jmul (Fin (- (1 / 16))) (Fin 100) = Fin (- (25 / 4))"
    by (simp add: dbl_minus)
  have "dbl (125 / 2) = Fin (of_int 8796093022208000 / 2 ^ 47)"
    by (rule dbl_near) simp_all
  then have q3: "jmul (Fin (- (25 / 4))) (Fin 10) = Fin (- (125 / 2))"
    by (simp add: dbl_minus)
  have q4: "Math_round (Fin (- (125 / 2))) = Fin (- 62)"
    by (simp add: floor_eq_iff)
  have "pct_of (Fin 16) (Fin (- 1)) = jdiv (Fin (- 62)) (Fin 10)"
    by (simp add: pct_of_def q1 q2 q3 q4 del: jdiv.simps jmul.simps Math_round.simps)
  then show ?thesis by (simp add: dbl_minus)
qed


lemma pct_140_of_200: "pct_of (Fin 200) (Fin 140) = dbl 70"
proof -
  have "dbl (7 / 10) = Fin (of_int 6305039478318694 / 2 ^ 53)"
    by (rule dbl_near) simp_all
  then have q1: "jdiv (Fin 140) (Fin 200) = Fin (3152519739159347 / 4503599627370496)"
    by (simp add: dbl_minus)
  have "dbl (78812993478983675 / 1125899906842624) = Fin (of_int 4925812092436480 / 2 ^ 46)"
    by (rule dbl_near) simp_all
  then have q2: "jmul (Fin (3152519739159347 / 4503599627370496)) (Fin 100) = Fin 70"
    by (simp add: dbl_minus)
  have "dbl (700) = Fin (of_int 6157265115545600 / 2 ^ 43)"
    by (rule dbl_near) simp_all
  then have q3: "jmul (Fin 70) (Fin 10) = Fin 700"
    by (simp add: dbl_minus)
  have q4: "Math_round (Fin 700) = Fin 700"
    by (simp add: floor_eq_iff)
  have "pct_of (Fin 200) (Fin 140) = jdiv (Fin 700) (Fin 10)"
    by (simp add: pct_of_def q1 q2 q3 q4 del: jdiv.simps jmul.simps Math_round.simps)
  then show ?thesis by (simp add: dbl_minus)
qed

lemma pct_half_away_minus_1_of_16: "pct_half_away (Fin 16) (Fin (- 1)) = dbl (- (63 / 10))"
proof -
  have "dbl (1 / 16) = Fin (of_int 4503599627370496 / 2 ^ 56)"
    by (rule dbl_near) simp_all
  then have q1: "jdiv (Fin (- 1)) (Fin 16) = Fin (- (1 / 16))"
    by (simp add: dbl_minus)
  have "dbl (25 / 4) = Fin (of_int 7036874417766400 / 2 ^ 50)"
    by (rule dbl_near) simp_all
  then have q2: "jmul (Fin (- (1 / 16))) (Fin 100) = Fin (- (25 / 4))"
    by (simp add: dbl_minus)
  have "dbl (125 / 2) = Fin (of_int 8796093022208000 / 2 ^ 47)"
    by (rule dbl_near) simp_all
  then have q3: "jmul (Fin (- (25 / 4))) (Fin 10) = Fin (- (125 / 2))"
    by (simp add: dbl_minus)
  have q5: "round_half_away (Fin (- (125 / 2))) = Fin (- 63)"
    by (simp add: ceiling_eq_iff)
  have "pct_half_away (Fin 16) (Fin (- 1)) = jdiv (Fin (- 63)) (Fin 10)"
    by (simp add: pct_half_away_def q1 q2 q3 q5 del: jdiv.simps jmul.simps round_half_away.simps)
  then show ?thesis by (simp add: dbl_minus)
qed

lemma minus_6_2_and_6_3:
  "dbl (- (31 / 5)) = Fin (- (6980579422424269 / 1125899906842624)) \<and> dbl (- (63 / 10)) = Fin (- (7093169413108531 / 1125899906842624))"
proof -
  have "dbl (31 / 5) = Fin (of_int 6980579422424269 / 2 ^ 50)"
    by (rule dbl_near) simp_all
  then have v1: "dbl (- (31 / 5)) = Fin (- (6980579422424269 / 1125899906842624))"
    by (simp add: dbl_minus)
  have "dbl (63 / 10) = Fin (of_int 7093169413108531 / 2 ^ 50)"
    by (rule dbl_near) simp_all
  then have v2: "dbl (- (63 / 10)) = Fin (- (7093169413108531 / 1125899906842624))"
    by (simp add: dbl_minus)
  from v1 v2 show ?thesis by simp
qed

subsection \<open>Counts that are not negative\<close>

lemma dbl_not_NaN: "dbl x \<noteq> NaN"
  by (simp add: dbl_def)

lemma jadd_not_negative:
  assumes "not_negative a" "a \<noteq> NaN" "not_negative b" "b \<noteq> NaN"
  shows "not_negative (jadd a b) \<and> jadd a b \<noteq> NaN"
proof (cases a)
  case (Fin x)
  show ?thesis
  proof (cases b)
    case (Fin y)
    with \<open>a = Fin x\<close> assms have "0 \<le> x + y" by (simp add: not_negative_def)
    with Fin \<open>a = Fin x\<close> show ?thesis by (simp add: dbl_not_negative dbl_not_NaN)
  qed (use assms Fin in \<open>simp_all add: not_negative_def\<close>)
next
  case PosInf
  with assms show ?thesis by (cases b) (simp_all add: not_negative_def)
qed (use assms in \<open>simp_all add: not_negative_def\<close>)

lemma cons_of_not_negative:
  assumes "not_negative (consumers s)"
  shows "not_negative (cons_of s) \<and> cons_of s \<noteq> NaN"
  using assms by (cases "consumers s") (simp_all add: cons_of_def number_or_zero_def not_negative_def)

lemma running_sum_not_negative:
  assumes "\<forall>c \<in> set cs. not_negative c \<and> c \<noteq> NaN"
  shows "not_negative (running_sum cs) \<and> running_sum cs \<noteq> NaN"
  using assms
proof (induction cs rule: rev_induct)
  case Nil
  show ?case by (simp add: not_negative_def)
next
  case (snoc c cs)
  then have "not_negative (running_sum cs)" "running_sum cs \<noteq> NaN" "not_negative c" "c \<noteq> NaN"
    by simp_all
  from jadd_not_negative [OF this] show ?case by simp
qed

lemma jdiv_not_negative:
  assumes "not_negative a" "a \<noteq> NaN" "not_negative t" "t \<noteq> NaN"
  shows "not_negative (jdiv a t)"
proof (cases a)
  case (Fin x)
  show ?thesis
  proof (cases t)
    case (Fin y)
    with \<open>a = Fin x\<close> assms have "0 \<le> x" "0 \<le> y" by (simp_all add: not_negative_def)
    then have "0 \<le> x / y" by simp
    with Fin \<open>a = Fin x\<close> \<open>0 \<le> x\<close> show ?thesis
      by (simp add: dbl_not_negative) (simp add: not_negative_def)
  qed (use assms Fin in \<open>simp_all add: not_negative_def\<close>)
next
  case PosInf
  with assms show ?thesis by (cases t) (simp_all add: not_negative_def)
qed (use assms in \<open>simp_all add: not_negative_def\<close>)

lemma jmul_not_negative:
  assumes "not_negative v" and "0 < c"
  shows "not_negative (jmul v (Fin c))"
proof (cases v)
  case (Fin x)
  with assms have "0 \<le> x * c" by (simp add: not_negative_def)
  with Fin show ?thesis by (simp add: dbl_not_negative)
qed (use assms in \<open>simp_all add: not_negative_def\<close>)

lemma Math_round_not_negative: "not_negative v \<Longrightarrow> Math_round v = round_half_away v"
  by (cases v) (simp_all add: not_negative_def)

lemma is_positive_not_negative:
  "not_negative t \<Longrightarrow> t \<noteq> NaN \<Longrightarrow> is_positive t = (t \<noteq> Fin 0)"
  by (cases t) (auto simp: not_negative_def)

lemma pct_of_half_away:
  assumes "not_negative t" "t \<noteq> NaN" "not_negative a" "a \<noteq> NaN"
  shows "pct_of t a = pct_half_away t a"
proof -
  have "not_negative (jmul (jmul (jdiv a t) (Fin 100)) (Fin 10))"
    by (intro jmul_not_negative jdiv_not_negative assms) simp_all
  then show ?thesis
    by (simp add: pct_of_def pct_half_away_def is_positive_not_negative [OF assms(1,2)]
        Math_round_not_negative)
qed

text \<open>
  C4 as stated fails when the affected sum is negative, which a negative count in the CSV
  allows: with counts \<open>-1\<close> (out) and \<open>17\<close> the total is 16, \<open>value * 10\<close> is the tie \<open>-62.5\<close>,
  \<open>Math.round\<close> takes it up to \<open>-62\<close> and \<open>pct\<close> is \<open>-6.2\<close>, where rounding half away from
  zero gives \<open>-6.3\<close>.
\<close>

theorem pct_half_away_counterexample:
  "total (totals (aggregate compare_codes
      [mk_station ''1'' ''F1'' ''A'' (- 1) True, mk_station ''2'' ''F1'' ''B'' 17 False] Map.empty))
     = Fin 16 \<and>
   affected (totals (aggregate compare_codes
      [mk_station ''1'' ''F1'' ''A'' (- 1) True, mk_station ''2'' ''F1'' ''B'' 17 False] Map.empty))
     = Fin (- 1) \<and>
   pct (totals (aggregate compare_codes
      [mk_station ''1'' ''F1'' ''A'' (- 1) True, mk_station ''2'' ''F1'' ''B'' 17 False] Map.empty))
     = dbl (- (31 / 5)) \<and>
   pct_half_away (Fin 16) (Fin (- 1)) = dbl (- (63 / 10)) \<and>
   dbl (- (31 / 5)) = Fin (- (6980579422424269 / 1125899906842624)) \<and>
   dbl (- (63 / 10)) = Fin (- (7093169413108531 / 1125899906842624)) \<and>
   Fin (- (6980579422424269 / 1125899906842624)) \<noteq> Fin (- (7093169413108531 / 1125899906842624))"
proof -
  have t: "total (totals (aggregate compare_codes
      [mk_station ''1'' ''F1'' ''A'' (- 1) True, mk_station ''2'' ''F1'' ''B'' 17 False] Map.empty))
     = Fin 16"
    by (simp add: totals_aggregate example_eval running_sum_def)
  have a: "affected (totals (aggregate compare_codes
      [mk_station ''1'' ''F1'' ''A'' (- 1) True, mk_station ''2'' ''F1'' ''B'' 17 False] Map.empty))
     = Fin (- 1)"
    by (simp add: totals_aggregate example_eval running_sum_def)
  have p: "pct (totals (aggregate compare_codes
      [mk_station ''1'' ''F1'' ''A'' (- 1) True, mk_station ''2'' ''F1'' ''B'' 17 False] Map.empty))
     = pct_of (Fin 16) (Fin (- 1))"
    using t a by (simp add: totals_aggregate)
  show ?thesis
    using minus_6_2_and_6_3
    by (simp only: t a p pct_minus_1_of_16 pct_half_away_minus_1_of_16) simp
qed

text \<open>
  C4, amended. \<open>pct\<close> is computed in double precision: when the total is positive it is
  \<open>Math.round\<close> (the nearest integer, a tie going up) of \<open>((affected / total) * 100) * 10\<close>,
  divided by 10, each operation rounded to the nearest double; otherwise it is 0. When no
  count is negative this is rounding half away from zero of the same product, with 0 for
  the total 0. For 1 of 3 it is 33.3 and for 2 of 3 it is 66.7; for 23 of 80 the product
  is just below the tie 287.5 and \<open>pct\<close> is 28.7.
\<close>

theorem pct_rounding:
  "pct (totals (aggregate cmp sts F))
     = pct_of (total (totals (aggregate cmp sts F))) (affected (totals (aggregate cmp sts F))) \<and>
   pct_of tot aff =
     (if is_positive tot
      then jdiv (Math_round (jmul (jmul (jdiv aff tot) (Fin 100)) (Fin 10))) (Fin 10)
      else Fin 0) \<and>
   Math_round (Fin x) = Fin (of_int \<lfloor>x + 1 / 2\<rfloor>) \<and>
   ((\<forall>s \<in> set sts. not_negative (consumers s)) \<longrightarrow>
      pct (totals (aggregate cmp sts F))
        = pct_half_away (total (totals (aggregate cmp sts F)))
            (affected (totals (aggregate cmp sts F)))) \<and>
   pct_of (Fin 0) aff = Fin 0 \<and> pct_half_away (Fin 0) aff = Fin 0 \<and>
   pct_of (Fin 3) (Fin 1) = dbl (333 / 10) \<and> pct_of (Fin 3) (Fin 2) = dbl (667 / 10) \<and>
   pct_of (Fin 80) (Fin 23) = dbl (287 / 10)"
proof -
  have a: "pct (totals (aggregate cmp sts F))
     = pct_of (total (totals (aggregate cmp sts F))) (affected (totals (aggregate cmp sts F)))"
    by (simp add: totals_aggregate)
  have b: "pct_of tot aff =
     (if is_positive tot
      then jdiv (Math_round (jmul (jmul (jdiv aff tot) (Fin 100)) (Fin 10))) (Fin 10)
      else Fin 0)"
    by (simp only: pct_of_def)
  have c: "Math_round (Fin x) = Fin (of_int \<lfloor>x + 1 / 2\<rfloor>)"
    by simp
  have d: "pct (totals (aggregate cmp sts F))
        = pct_half_away (total (totals (aggregate cmp sts F)))
            (affected (totals (aggregate cmp sts F)))"
    if nn: "\<forall>s \<in> set sts. not_negative (consumers s)"
  proof -
    from nn have all: "\<forall>c \<in> set (map cons_of (filter P sts)). not_negative c \<and> c \<noteq> NaN" for P
      by (auto simp: cons_of_not_negative)
    from all [of "\<lambda>s. True"] have "\<forall>c \<in> set (map cons_of sts). not_negative c \<and> c \<noteq> NaN"
      by simp
    from running_sum_not_negative [OF this] running_sum_not_negative [OF all [of "eff_of F"]]
    show ?thesis
      by (simp add: totals_aggregate pct_of_half_away)
  qed
  have e: "pct_of (Fin 0) aff = Fin 0" "pct_half_away (Fin 0) aff = Fin 0"
    by (simp_all add: pct_of_def pct_half_away_def)
  from a b c d e pct_1_of_3 pct_2_of_3 pct_23_of_80 show ?thesis by blast
qed

theorem pct_rounding_witness:
  "list_all (\<lambda>s. not_negative (consumers s)) example_stations \<and>
   total (totals (aggregate compare_codes example_stations [units ''F2'' \<mapsto> True])) = Fin 200 \<and>
   affected (totals (aggregate compare_codes example_stations [units ''F2'' \<mapsto> True])) = Fin 140 \<and>
   pct (totals (aggregate compare_codes example_stations [units ''F2'' \<mapsto> True])) = Fin 70 \<and>
   pct_half_away (Fin 200) (Fin 140) = Fin 70"
proof -
  let ?A = "aggregate compare_codes example_stations [units ''F2'' \<mapsto> True]"
  have nn: "\<forall>s \<in> set example_stations. not_negative (consumers s)"
    by (simp add: example_eval not_negative_def)
  from pct_rounding [of compare_codes example_stations "[units ''F2'' \<mapsto> True]"] nn
  have p: "pct (totals ?A) = pct_of (total (totals ?A)) (affected (totals ?A))"
    and h: "pct (totals ?A) = pct_half_away (total (totals ?A)) (affected (totals ?A))"
    by blast+
  from example_totals have t: "total (totals ?A) = Fin 200" and a: "affected (totals ?A) = Fin 140"
    by simp_all
  have v: "pct (totals ?A) = Fin 70"
    unfolding p t a by (simp add: pct_140_of_200)
  from h have "pct_half_away (Fin 200) (Fin 140) = Fin 70"
    unfolding v t a by simp
  with nn t a v show ?thesis by (simp add: list_all_iff)
qed


section \<open>The dashboards compared\<close>

lemma foldl_cons_of:
  "foldl (\<lambda>acc x. jadd acc (number_or_zero (consumers x))) a xs = foldl jadd a (map cons_of xs)"
  by (induction xs arbitrary: a) (simp_all add: cons_of_def)

lemma totals_simple_closed:
  "totals_simple sts =
     \<lparr> total = running_sum (map cons_of sts),
       affected = running_sum (map cons_of (filter isOut sts)),
       healthy = jsub (running_sum (map cons_of sts)) (running_sum (map cons_of (filter isOut sts))),
       pct = pct_of (running_sum (map cons_of sts))
               (running_sum (map cons_of (filter isOut sts))) \<rparr>"
  by (simp add: totals_simple_def Let_def foldl_cons_of running_sum_def)



text \<open>
  The totals can also agree while a feeder is forced OFF: when every station of that
  feeder is out itself.
\<close>

lemma totals_agree_under_override_example:
  "feeder_off [units ''F1'' \<mapsto> True] (feeder_key (mk_station ''1'' ''F1'' ''A'' 10 True)) \<and>
   totals_simple [mk_station ''1'' ''F1'' ''A'' 10 True]
     = totals (aggregate cmp [mk_station ''1'' ''F1'' ''A'' 10 True] [units ''F1'' \<mapsto> True])"
  by (simp add: totals_simple_closed totals_aggregate example_eval)





section \<open>Properties of the publish endpoint\<close>







end
